theory Spec2Isabelle
  imports Complex_Main "HOL-Library.Product_Lexorder"
begin

section \<open>Data model\<close>

text \<open>
  The simulation core of the city builder (\<open>src/lib/simulation.ts\<close>) works on a square
  grid of tiles. Building types are the string tags of the source; zone, bridge and track
  tags are small enumerations. JavaScript numbers are modelled by \<open>int\<close> where the code
  only ever produces integers (coordinates, sizes, counts), by \<open>nat\<close> for the building
  level (a non-negative integer in the data model) and by \<open>real\<close> otherwise. An optional
  field (\<open>constructionProgress?\<close>, \<open>hasRailOverlay?\<close>, the bridge fields) is an
  \<open>option\<close>, \<open>None\<close> standing for \<open>undefined\<close>.
\<close>

datatype ZoneType = zone_none | residential | commercial | industrial

datatype BridgeType = small | medium | large | suspension

datatype BridgeOrientation = ns | ew

datatype BridgePosition = pos_start | pos_middle | pos_end

datatype TrackType = track_road | track_rail

record Building =
  btype :: string
  level :: nat
  population :: int
  jobs :: int
  powered :: bool
  watered :: bool
  onFire :: bool
  fireProgress :: real
  age :: real
  constructionProgress :: "real option"
  abandoned :: bool
  flipped :: "bool option"
  bridgeType :: "BridgeType option"
  bridgeOrientation :: "BridgeOrientation option"
  bridgeVariant :: "int option"
  bridgePosition :: "BridgePosition option"
  bridgeIndex :: "int option"
  bridgeSpan :: "int option"
  bridgeTrackType :: "TrackType option"

record Tile =
  tileX :: int
  tileY :: int
  zone :: ZoneType
  building :: Building
  landValue :: real
  pollution :: real
  crime :: real
  traffic :: real
  hasSubway :: bool
  hasRailOverlay :: "bool option"
  pollutionType :: "string option"
  waterDepth :: "real option"

type_synonym Grid = "Tile list list"

text \<open>
  \<open>grid[y][x]\<close> is \<open>getTile\<close>; it is only used where the source indexes without a
  check (out of range the source raises a TypeError, and the theorems below assume a
  square grid of the stated size). \<open>grid[y]?.[x]\<close> with its test for \<open>undefined\<close> is
  \<open>tileAt\<close>.
\<close>

definition getTile :: "Grid \<Rightarrow> int \<Rightarrow> int \<Rightarrow> Tile" where
  "getTile g x y = g ! nat y ! nat x"

definition tileAt :: "Grid \<Rightarrow> int \<Rightarrow> int \<Rightarrow> Tile option" where
  "tileAt g x y =
     (if 0 \<le> y \<and> y < int (length g) \<and> 0 \<le> x \<and> x < int (length (g ! nat y))
      then Some (g ! nat y ! nat x) else None)"

definition updTile :: "Grid \<Rightarrow> int \<Rightarrow> int \<Rightarrow> (Tile \<Rightarrow> Tile) \<Rightarrow> Grid" where
  "updTile g x y f = g[nat y := (g ! nat y)[nat x := f (g ! nat y ! nat x)]]"

definition wf_grid :: "'a list list \<Rightarrow> int \<Rightarrow> bool" where
  "wf_grid g n = (0 \<le> n \<and> length g = nat n \<and> list_all (\<lambda>row. length row = nat n) g)"

definition coords_stored :: "Grid \<Rightarrow> bool" where
  "coords_stored g =
     list_all (\<lambda>(y, row). list_all (\<lambda>(x, t). tileX t = int x \<and> tileY t = int y)
       (zip [0..<length row] row)) (zip [0..<length g] g)"

section \<open>Basic helpers\<close>

definition NO_CONSTRUCTION_TYPES :: "string list" where
  "NO_CONSTRUCTION_TYPES = [''grass'', ''empty'', ''water'', ''road'', ''bridge'', ''tree'']"

definition MAX_BRIDGE_SPAN :: int where
  "MAX_BRIDGE_SPAN = 10"

definition BRIDGE_TYPE_THRESHOLDS_large :: int where
  "BRIDGE_TYPE_THRESHOLDS_large = 5"


definition WATERFRONT_BUILDINGS :: "string list" where
  "WATERFRONT_BUILDINGS = [''marina_docks_small'', ''pier_large'']"

definition MERGEABLE_TILE_TYPES :: "string list" where
  "MERGEABLE_TILE_TYPES = [''grass'', ''tree'']"

definition CONSOLIDATABLE_BUILDINGS :: "ZoneType \<Rightarrow> string list" where
  "CONSOLIDATABLE_BUILDINGS z =
     (case z of
        residential \<Rightarrow> [''house_small'', ''house_medium'']
      | commercial \<Rightarrow> [''shop_small'', ''shop_medium'']
      | industrial \<Rightarrow> [''factory_small'']
      | zone_none \<Rightarrow> [])"

text \<open>Footprints as (width, height).\<close>

definition BUILDING_SIZES :: "(string \<times> (int \<times> int)) list" where
  "BUILDING_SIZES =
     [(''power_plant'', (2, 2)), (''hospital'', (2, 2)), (''school'', (2, 2)),
      (''stadium'', (3, 3)), (''museum'', (3, 3)), (''university'', (3, 3)),
      (''airport'', (4, 4)), (''space_program'', (3, 3)), (''park_large'', (3, 3)),
      (''mansion'', (2, 2)), (''apartment_low'', (2, 2)), (''apartment_high'', (2, 2)),
      (''office_low'', (2, 2)), (''office_high'', (2, 2)), (''mall'', (3, 3)),
      (''factory_medium'', (2, 2)), (''factory_large'', (3, 3)), (''warehouse'', (2, 2)),
      (''city_hall'', (2, 2)), (''amusement_park'', (4, 4)), (''playground_large'', (2, 2)),
      (''baseball_field_small'', (2, 2)), (''football_field'', (2, 2)),
      (''baseball_stadium'', (3, 3)), (''mini_golf_course'', (2, 2)),
      (''go_kart_track'', (2, 2)), (''amphitheater'', (2, 2)),
      (''greenhouse_garden'', (2, 2)), (''marina_docks_small'', (2, 2)),
      (''roller_coaster_small'', (2, 2)), (''mountain_lodge'', (2, 2)),
      (''mountain_trailhead'', (3, 3)), (''rail_station'', (2, 2))]"

definition getBuildingSize :: "string \<Rightarrow> int \<times> int" where
  "getBuildingSize buildingType =
     (case map_of BUILDING_SIZES buildingType of Some s \<Rightarrow> s | None \<Rightarrow> (1, 1))"

definition createBuilding :: "string \<Rightarrow> Building" where
  "createBuilding t =
     \<lparr> btype = t,
       level = (if t = ''grass'' \<or> t = ''empty'' \<or> t = ''water'' then 0 else 1),
       population = 0, jobs = 0, powered = False, watered = False, onFire = False,
       fireProgress = 0, age = 0,
       constructionProgress = Some (if t \<in> set NO_CONSTRUCTION_TYPES then 100 else 0),
       abandoned = False, flipped = None, bridgeType = None, bridgeOrientation = None,
       bridgeVariant = None, bridgePosition = None, bridgeIndex = None, bridgeSpan = None,
       bridgeTrackType = None \<rparr>"

definition createTile :: "int \<Rightarrow> int \<Rightarrow> string \<Rightarrow> Tile" where
  "createTile x y buildingType =
     \<lparr> tileX = x, tileY = y, zone = zone_none, building = createBuilding buildingType,
       landValue = 50, pollution = 0, crime = 0, traffic = 0, hasSubway = False,
       hasRailOverlay = None, pollutionType = None, waterDepth = None \<rparr>"

definition isStarterBuilding :: "int \<Rightarrow> int \<Rightarrow> string \<Rightarrow> bool" where
  "isStarterBuilding x y buildingType =
     (if buildingType = ''house_small'' \<or> buildingType = ''shop_small'' then True
      else if buildingType = ''animal_pens_farm'' \<or> buildingType = ''greenhouse_garden'' then True
      else if buildingType = ''factory_small'' then True
      else False)"

definition requiresWaterAdjacency :: "string \<Rightarrow> bool" where
  "requiresWaterAdjacency buildingType = (buildingType \<in> set WATERFRONT_BUILDINGS)"

section \<open>Growing and shrinking the map\<close>

definition expandGrid :: "Grid \<Rightarrow> int \<Rightarrow> int \<Rightarrow> Grid \<times> int" where
  "expandGrid currentGrid currentSize expansion =
     (let newSize = currentSize + expansion * 2;
          grid = map (\<lambda>y. map (\<lambda>x.
                   (let oldX = x - expansion; oldY = y - expansion;
                        wasInOldGrid = (oldX \<ge> 0 \<and> oldY \<ge> 0 \<and> oldX < currentSize \<and> oldY < currentSize)
                    in if wasInOldGrid
                       then (getTile currentGrid oldX oldY)\<lparr>tileX := x, tileY := y\<rparr>
                       else createTile x y ''grass''))
                   [0..newSize - 1]) [0..newSize - 1]
      in (grid, newSize))"

text \<open>\<open>shrinkGrid\<close> returns \<open>null\<close> (here \<open>None\<close>) when the new map would be smaller than 20.\<close>

definition shrinkGrid :: "Grid \<Rightarrow> int \<Rightarrow> int \<Rightarrow> (Grid \<times> int) option" where
  "shrinkGrid currentGrid currentSize shrinkAmount =
     (let newSize = currentSize - shrinkAmount * 2
      in if newSize < 20 then None
         else Some (map (\<lambda>y. map (\<lambda>x.
                      (let oldX = x + shrinkAmount; oldY = y + shrinkAmount
                       in (getTile currentGrid oldX oldY)\<lparr>tileX := x, tileY := y\<rparr>))
                      [0..newSize - 1]) [0..newSize - 1], newSize))"

definition expandThenShrink :: "Grid \<Rightarrow> int \<Rightarrow> int \<Rightarrow> (Grid \<times> int) option" where
  "expandThenShrink g n k =
     (case expandGrid g n k of (g', n') \<Rightarrow> shrinkGrid g' n' k)"

definition grassGrid :: "int \<Rightarrow> Grid" where
  "grassGrid n = map (\<lambda>y. map (\<lambda>x. createTile x y ''grass'') [0..n - 1]) [0..n - 1]"

section \<open>Service coverage\<close>

datatype ServiceType = svc_police | svc_fire | svc_health | svc_education

record ServiceCoverage =
  policeCov :: "real list list"
  fireCov :: "real list list"
  healthCov :: "real list list"
  educationCov :: "real list list"
  powerCov :: "bool list list"
  waterCov :: "bool list list"

text \<open>Reading and writing a cell of a two-dimensional array, \<open>a[y][x]\<close>.\<close>

definition get2 :: "'a list list \<Rightarrow> int \<Rightarrow> int \<Rightarrow> 'a" where
  "get2 a x y = a ! nat y ! nat x"

definition set2 :: "'a list list \<Rightarrow> int \<Rightarrow> int \<Rightarrow> 'a \<Rightarrow> 'a list list" where
  "set2 a x y v = a[nat y := (a ! nat y)[nat x := v]]"

text \<open>Each entry of \<open>SERVICE_CONFIG\<close>: the base range and, for the four quality services, the field.\<close>

definition SERVICE_CONFIG :: "(string \<times> (int \<times> ServiceType option)) list" where
  "SERVICE_CONFIG =
     [(''police_station'', (13, Some svc_police)),
      (''fire_station'', (18, Some svc_fire)),
      (''hospital'', (24, Some svc_health)),
      (''school'', (11, Some svc_education)),
      (''university'', (19, Some svc_education)),
      (''power_plant'', (15, None)),
      (''water_tower'', (12, None))]"

definition SERVICE_BUILDING_TYPES :: "string list" where
  "SERVICE_BUILDING_TYPES =
     [''police_station'', ''fire_station'', ''hospital'', ''school'', ''university'',
      ''power_plant'', ''water_tower'']"

definition SERVICE_RANGE_INCREASE_PER_LEVEL :: real where
  "SERVICE_RANGE_INCREASE_PER_LEVEL = 0.2"

definition createServiceCoverage :: "int \<Rightarrow> ServiceCoverage" where
  "createServiceCoverage sz =
     \<lparr> policeCov = replicate (nat sz) (replicate (nat sz) 0),
       fireCov = replicate (nat sz) (replicate (nat sz) 0),
       healthCov = replicate (nat sz) (replicate (nat sz) 0),
       educationCov = replicate (nat sz) (replicate (nat sz) 0),
       powerCov = replicate (nat sz) (replicate (nat sz) False),
       waterCov = replicate (nat sz) (replicate (nat sz) False) \<rparr>"

definition getServiceField :: "ServiceType \<Rightarrow> ServiceCoverage \<Rightarrow> real list list" where
  "getServiceField st services =
     (case st of svc_police \<Rightarrow> policeCov services | svc_fire \<Rightarrow> fireCov services
               | svc_health \<Rightarrow> healthCov services | svc_education \<Rightarrow> educationCov services)"

definition setServiceField :: "ServiceType \<Rightarrow> real list list \<Rightarrow> ServiceCoverage \<Rightarrow> ServiceCoverage" where
  "setServiceField st a services =
     (case st of svc_police \<Rightarrow> services\<lparr>policeCov := a\<rparr> | svc_fire \<Rightarrow> services\<lparr>fireCov := a\<rparr>
               | svc_health \<Rightarrow> services\<lparr>healthCov := a\<rparr> | svc_education \<Rightarrow> services\<lparr>educationCov := a\<rparr>)"

text \<open>
  The first pass of \<open>calculateServiceCoverage\<close>: the service buildings in row-major
  order as (x, y, type, level), leaving out those under construction and the abandoned.
\<close>

definition collectServiceBuildings :: "Grid \<Rightarrow> int \<Rightarrow> (int \<times> int \<times> string \<times> nat) list" where
  "collectServiceBuildings grid sz =
     concat (map (\<lambda>y. concat (map (\<lambda>x.
       (let tile = getTile grid x y
        in if btype (building tile) \<notin> set SERVICE_BUILDING_TYPES then []
           else if (case constructionProgress (building tile) of Some p \<Rightarrow> p < 100 | None \<Rightarrow> False) then []
           else if abandoned (building tile) then []
           else [(x, y, btype (building tile), level (building tile))]))
       [0..sz - 1])) [0..sz - 1])"

text \<open>The doubly nested loop over the bounding box, \<open>ny\<close> outside and \<open>nx\<close> inside.\<close>

definition forBox :: "int \<Rightarrow> int \<Rightarrow> int \<Rightarrow> int \<Rightarrow> (int \<Rightarrow> int \<Rightarrow> 'a \<Rightarrow> 'a) \<Rightarrow> 'a \<Rightarrow> 'a" where
  "forBox minY maxY minX maxX body a =
     fold (\<lambda>ny. fold (\<lambda>nx. body ny nx) [minX..maxX]) [minY..maxY] a"

text \<open>
  The floored range of a service building. The source computes
  \<open>baseRange * (1 + (level - 1) * 0.2)\<close> in double precision and floors the double; the
  model floors the exact real. The two agree for the seven base ranges at every level up to
  36; at level 37 and base range 15 the double product is 122.99999999999999, which floors
  to 122 where the exact value is 123. The levels that \<open>upgradeServiceBuilding\<close> sets are at
  most \<open>SERVICE_MAX_LEVEL\<close>. A statement below that depends on the exact value of the range
  is made for levels up to 36 only.
\<close>

definition SERVICE_MAX_LEVEL :: nat where
  "SERVICE_MAX_LEVEL = 5"

definition serviceRange :: "int \<Rightarrow> nat \<Rightarrow> int" where
  "serviceRange baseRange lvl =
     (let effectiveRange = real_of_int baseRange * (1 + (real lvl - 1) * SERVICE_RANGE_INCREASE_PER_LEVEL)
      in \<lfloor>effectiveRange\<rfloor>)"

text \<open>The body of the second pass for one service building.\<close>

definition applyServiceBuilding :: "int \<Rightarrow> (int \<times> int \<times> string \<times> nat) \<Rightarrow> ServiceCoverage \<Rightarrow> ServiceCoverage" where
  "applyServiceBuilding sz b services =
     (case b of (x, y, t, lvl) \<Rightarrow>
       (case map_of SERVICE_CONFIG t of
          None \<Rightarrow> services
        | Some (baseRange, st) \<Rightarrow>
           (let range = serviceRange baseRange lvl;
                rangeSquared = range * range;
                minY = max 0 (y - range);
                maxY = min (sz - 1) (y + range);
                minX = max 0 (x - range);
                maxX = min (sz - 1) (x + range)
            in if t = ''power_plant'' then
                 services\<lparr>powerCov := forBox minY maxY minX maxX
                   (\<lambda>ny nx a. (let dx = nx - x; dy = ny - y
                                in if dx * dx + dy * dy \<le> rangeSquared then set2 a nx ny True else a))
                   (powerCov services)\<rparr>
               else if t = ''water_tower'' then
                 services\<lparr>waterCov := forBox minY maxY minX maxX
                   (\<lambda>ny nx a. (let dx = nx - x; dy = ny - y
                                in if dx * dx + dy * dy \<le> rangeSquared then set2 a nx ny True else a))
                   (waterCov services)\<rparr>
               else
                 (case st of
                    None \<Rightarrow> services
                  | Some serviceType \<Rightarrow>
                      setServiceField serviceType
                        (forBox minY maxY minX maxX
                          (\<lambda>ny nx currentCoverage.
                             (let dx = nx - x; dy = ny - y; distSquared = dx * dx + dy * dy
                              in if distSquared \<le> rangeSquared then
                                   (let distance = sqrt (real_of_int distSquared);
                                        coverage = max 0 ((1 - distance / real_of_int range) * 100)
                                    in set2 currentCoverage nx ny
                                         (min 100 (get2 currentCoverage nx ny + coverage)))
                                 else currentCoverage))
                          (getServiceField serviceType services))
                        services))))"

text \<open>
  The loop bodies above all rewrite one cell from its old value when a test on the
  coordinates holds; \<open>cellUpd\<close> names that shape for the proofs.
\<close>

definition cellUpd :: "(int \<Rightarrow> int \<Rightarrow> bool) \<Rightarrow> (int \<Rightarrow> int \<Rightarrow> 'a \<Rightarrow> 'a) \<Rightarrow> int \<Rightarrow> int \<Rightarrow> 'a list list \<Rightarrow> 'a list list" where
  "cellUpd P h ny nx a = (if P ny nx then set2 a nx ny (h ny nx (get2 a nx ny)) else a)"

definition calculateServiceCoverage :: "Grid \<Rightarrow> int \<Rightarrow> ServiceCoverage" where
  "calculateServiceCoverage grid sz =
     fold (applyServiceBuilding sz) (collectServiceBuildings grid sz) (createServiceCoverage sz)"

text \<open>
  For C3: the claim's words. A tile is in the circle of a service building when its
  Euclidean distance to the building is at most the effective range
  \<open>baseRange * (1 + (level - 1) * 0.2)\<close>, not floored.
\<close>

definition activeService :: "Tile \<Rightarrow> string \<Rightarrow> bool" where
  "activeService tile t =
     (btype (building tile) = t
      \<and> \<not> (case constructionProgress (building tile) of Some p \<Rightarrow> p < 100 | None \<Rightarrow> False)
      \<and> \<not> abandoned (building tile))"

definition inEuclideanRange :: "int \<Rightarrow> nat \<Rightarrow> int \<Rightarrow> int \<Rightarrow> int \<Rightarrow> int \<Rightarrow> bool" where
  "inEuclideanRange baseRange lvl x y nx ny =
     (sqrt (real_of_int ((nx - x) * (nx - x) + (ny - y) * (ny - y)))
        \<le> real_of_int baseRange * (1 + (real lvl - 1) * 0.2))"

definition inFlooredRange :: "int \<Rightarrow> nat \<Rightarrow> int \<Rightarrow> int \<Rightarrow> int \<Rightarrow> int \<Rightarrow> bool" where
  "inFlooredRange baseRange lvl x y nx ny =
     ((nx - x) * (nx - x) + (ny - y) * (ny - y)
        \<le> serviceRange baseRange lvl * serviceRange baseRange lvl)"

definition coveredBy :: "(int \<Rightarrow> nat \<Rightarrow> int \<Rightarrow> int \<Rightarrow> int \<Rightarrow> int \<Rightarrow> bool) \<Rightarrow> Grid \<Rightarrow> int \<Rightarrow> string \<Rightarrow> int \<Rightarrow> int \<Rightarrow> int \<Rightarrow> bool" where
  "coveredBy inRange grid sz t baseRange nx ny =
     list_ex (\<lambda>y. list_ex (\<lambda>x.
        activeService (getTile grid x y) t
        \<and> inRange baseRange (level (building (getTile grid x y))) x y nx ny) [0..sz - 1]) [0..sz - 1]"

text \<open>Every building on the map has a level of at most \<open>l\<close>.\<close>

definition levelsAtMost :: "Grid \<Rightarrow> int \<Rightarrow> nat \<Rightarrow> bool" where
  "levelsAtMost grid sz l =
     list_all (\<lambda>y. list_all (\<lambda>x. level (building (getTile grid x y)) \<le> l) [0..sz - 1]) [0..sz - 1]"

text \<open>For C4: the grid with the level of the building at (bx, by) replaced.\<close>

definition withLevel :: "Grid \<Rightarrow> int \<Rightarrow> int \<Rightarrow> nat \<Rightarrow> Grid" where
  "withLevel grid bx by lvl = updTile grid bx by (\<lambda>t. t\<lparr>building := (building t)\<lparr>level := lvl\<rparr>\<rparr>)"

section \<open>Auxiliary notions for the coverage proofs\<close>

definition wfCov :: "ServiceCoverage \<Rightarrow> int \<Rightarrow> bool" where
  "wfCov s n = (wf_grid (policeCov s) n \<and> wf_grid (fireCov s) n \<and> wf_grid (healthCov s) n
      \<and> wf_grid (educationCov s) n \<and> wf_grid (powerCov s) n \<and> wf_grid (waterCov s) n)"

definition contribution :: "int \<Rightarrow> int \<Rightarrow> int \<Rightarrow> int \<Rightarrow> int \<Rightarrow> real" where
  "contribution x y r nx ny =
     max 0 ((1 - sqrt (real_of_int ((nx - x) * (nx - x) + (ny - y) * (ny - y))) / real_of_int r) * 100)"

definition inCircle :: "int \<Rightarrow> int \<Rightarrow> int \<Rightarrow> int \<Rightarrow> int \<Rightarrow> bool" where
  "inCircle x y r ny nx = ((nx - x) * (nx - x) + (ny - y) * (ny - y) \<le> r * r)"

definition inGrid :: "int \<Rightarrow> (int \<times> int \<times> string \<times> nat) \<Rightarrow> bool" where
  "inGrid n b = (case b of (x, y, t, l) \<Rightarrow> 0 \<le> x \<and> x < n \<and> 0 \<le> y \<and> y < n)"

definition bounded100 :: "ServiceCoverage \<Rightarrow> int \<Rightarrow> bool" where
  "bounded100 s n = (\<forall>f i j. 0 \<le> i \<and> i < n \<and> 0 \<le> j \<and> j < n \<longrightarrow> get2 (getServiceField f s) i j \<le> 100)"

definition covLe :: "ServiceCoverage \<Rightarrow> ServiceCoverage \<Rightarrow> int \<Rightarrow> bool" where
  "covLe s s' n = (\<forall>i j. 0 \<le> i \<and> i < n \<and> 0 \<le> j \<and> j < n \<longrightarrow>
      (\<forall>f. get2 (getServiceField f s) i j \<le> get2 (getServiceField f s') i j)
      \<and> (get2 (powerCov s) i j \<le> get2 (powerCov s') i j)
      \<and> (get2 (waterCov s) i j \<le> get2 (waterCov s') i j))"

definition sameButLevel :: "(int \<times> int \<times> string \<times> nat) \<Rightarrow> (int \<times> int \<times> string \<times> nat) \<Rightarrow> bool" where
  "sameButLevel b b' = (case (b, b') of ((x, y, t, l), (x', y', t', l')) \<Rightarrow> x = x' \<and> y = y' \<and> t = t' \<and> l \<le> l')"

text \<open>Concrete maps used as examples below.\<close>

definition towerGrid :: Grid where
  "towerGrid = updTile (grassGrid 15) 0 0
     (\<lambda>t. t\<lparr>building := (createBuilding ''water_tower'')\<lparr>level := 2, constructionProgress := Some 100\<rparr>\<rparr>)"

definition policeGrid :: Grid where
  "policeGrid = updTile (grassGrid 3) 0 0
     (\<lambda>t. t\<lparr>building := (createBuilding ''police_station'')\<lparr>constructionProgress := Some 100\<rparr>\<rparr>)"

section \<open>Footprints and origins\<close>

text \<open>
  The tables \<open>BUILDING_STATS\<close>, \<open>RESIDENTIAL_BUILDINGS\<close>, \<open>COMMERCIAL_BUILDINGS\<close> and
  \<open>INDUSTRIAL_BUILDINGS\<close> are imported by the source from \<open>@/types/game\<close>, which is not
  among the sources; they are parameters of the model. A list read past its end gives
  \<open>undefined\<close>, which as a building type behaves like a tag no table knows and no
  comparison matches; the tag \<open>''undefined''\<close> stands for it.
\<close>

record BuildingStats =
  maxPop :: real
  maxJobs :: real
  statsPollution :: real
  statsLandValue :: real
  statsPollutionType :: "string option"

record Tables =
  BUILDING_STATS :: "string \<Rightarrow> BuildingStats option"
  RESIDENTIAL_BUILDINGS :: "string list"
  COMMERCIAL_BUILDINGS :: "string list"
  INDUSTRIAL_BUILDINGS :: "string list"

definition listAt :: "string list \<Rightarrow> int \<Rightarrow> string" where
  "listAt xs i = (if 0 \<le> i \<and> i < int (length xs) then xs ! nat i else ''undefined'')"

definition findBuildingOrigin :: "Grid \<Rightarrow> int \<Rightarrow> int \<Rightarrow> int \<Rightarrow> (int \<times> int \<times> string) option" where
  "findBuildingOrigin g x y gsz =
     (case tileAt g x y of
        None \<Rightarrow> None
      | Some tile \<Rightarrow>
          if btype (building tile) \<noteq> ''empty'' \<and> btype (building tile) \<noteq> ''grass''
             \<and> btype (building tile) \<noteq> ''water'' \<and> btype (building tile) \<noteq> ''road''
             \<and> btype (building tile) \<noteq> ''bridge'' \<and> btype (building tile) \<noteq> ''rail''
             \<and> btype (building tile) \<noteq> ''tree''
          then (case getBuildingSize (btype (building tile)) of (w, h) \<Rightarrow>
                  if w > 1 \<or> h > 1 then Some (x, y, btype (building tile)) else None)
          else if btype (building tile) = ''empty''
          then (case find (\<lambda>(dy, dx).
                      (let checkX = x - dx; checkY = y - dy
                       in checkX \<ge> 0 \<and> checkY \<ge> 0 \<and> checkX < gsz \<and> checkY < gsz
                          \<and> (let checkTile = getTile g checkX checkY
                              in btype (building checkTile) \<noteq> ''empty''
                                 \<and> btype (building checkTile) \<noteq> ''grass''
                                 \<and> btype (building checkTile) \<noteq> ''water''
                                 \<and> btype (building checkTile) \<noteq> ''road''
                                 \<and> btype (building checkTile) \<noteq> ''bridge''
                                 \<and> btype (building checkTile) \<noteq> ''rail''
                                 \<and> btype (building checkTile) \<noteq> ''tree''
                                 \<and> (case getBuildingSize (btype (building checkTile)) of (w, h) \<Rightarrow>
                                       x \<ge> checkX \<and> x < checkX + w \<and> y \<ge> checkY \<and> y < checkY + h))))
                    (List.product [0..3] [0..3]) of
                  Some (dy, dx) \<Rightarrow> Some (x - dx, y - dy, btype (building (getTile g (x - dx) (y - dy))))
                | None \<Rightarrow> None)
          else None)"

text \<open>
  \<open>applyBuildingFootprint\<close> writes the footprint into the grid it is given and returns
  the anchor's building; the model returns the written grid, the anchor's building being
  the one at the origin.
\<close>

definition applyBuildingFootprint :: "Tables \<Rightarrow> Grid \<Rightarrow> int \<Rightarrow> int \<Rightarrow> string \<Rightarrow> ZoneType \<Rightarrow> nat \<Rightarrow> ServiceCoverage option \<Rightarrow> Grid" where
  "applyBuildingFootprint T g originX originY buildingType z lvl services =
     (case getBuildingSize buildingType of (w, h) \<Rightarrow>
       (let stats = (case BUILDING_STATS T buildingType of
                       Some s \<Rightarrow> s
                     | None \<Rightarrow> \<lparr> maxPop = 0, maxJobs = 0, statsPollution = 0, statsLandValue = 0,
                                 statsPollutionType = None \<rparr>)
        in forBox 0 (h - 1) 0 (w - 1)
             (\<lambda>dy dx g'. updTile g' (originX + dx) (originY + dy)
                (\<lambda>cell. cell\<lparr>
                   building :=
                     (if dx = 0 \<and> dy = 0
                      then (case services of
                              Some sv \<Rightarrow> (createBuilding buildingType)\<lparr>level := lvl, age := 0,
                                  powered := get2 (powerCov sv) (originX + dx) (originY + dy),
                                  watered := get2 (waterCov sv) (originX + dx) (originY + dy)\<rparr>
                            | None \<Rightarrow> (createBuilding buildingType)\<lparr>level := lvl, age := 0\<rparr>)
                      else (createBuilding ''empty'')\<lparr>level := 0\<rparr>),
                   zone := z,
                   pollution := (if dx = 0 \<and> dy = 0 then statsPollution stats else 0)\<rparr>))
             g))"

definition canPlaceMultiTileBuilding :: "Grid \<Rightarrow> int \<Rightarrow> int \<Rightarrow> int \<Rightarrow> int \<Rightarrow> int \<Rightarrow> bool" where
  "canPlaceMultiTileBuilding g x y width height gsz =
     (if x + width > gsz \<or> y + height > gsz then False
      else list_all (\<lambda>dy. list_all (\<lambda>dx.
             (case tileAt g (x + dx) (y + dy) of
                None \<Rightarrow> False
              | Some tile \<Rightarrow> \<not> (btype (building tile) \<noteq> ''grass'' \<and> btype (building tile) \<noteq> ''tree'')))
             [0..width - 1]) [0..height - 1])"

definition isWaterAt :: "Grid \<Rightarrow> int \<Rightarrow> int \<Rightarrow> bool" where
  "isWaterAt g checkX checkY =
     (case tileAt g checkX checkY of Some t \<Rightarrow> btype (building t) = ''water'' | None \<Rightarrow> False)"

text \<open>\<open>getWaterAdjacency\<close> returns (hasWater, shouldFlip).\<close>

definition getWaterAdjacency :: "Grid \<Rightarrow> int \<Rightarrow> int \<Rightarrow> int \<Rightarrow> int \<Rightarrow> int \<Rightarrow> bool \<times> bool" where
  "getWaterAdjacency g x y width height gsz =
     (let south = list_ex (\<lambda>dx. y + height < gsz \<and> isWaterAt g (x + dx) (y + height)) [0..width - 1];
          waterOnSouthOrEast =
            (south \<or> list_ex (\<lambda>dy. x + width < gsz \<and> isWaterAt g (x + width) (y + dy)) [0..height - 1]);
          north = list_ex (\<lambda>dx. y - 1 \<ge> 0 \<and> isWaterAt g (x + dx) (y - 1)) [0..width - 1];
          waterOnNorthOrWest =
            (north \<or> list_ex (\<lambda>dy. x - 1 \<ge> 0 \<and> isWaterAt g (x - 1) (y + dy)) [0..height - 1]);
          hasWater = (waterOnSouthOrEast \<or> waterOnNorthOrWest);
          shouldFlip = (hasWater \<and> waterOnNorthOrWest \<and> \<not> waterOnSouthOrEast)
      in (hasWater, shouldFlip))"

section \<open>Game state and placement\<close>

text \<open>
  Of the game state the model keeps the fields the modelled functions read or write; the
  record is extensible, so every other field of the source's state travels unchanged in
  the \<open>more\<close> part. \<open>demand\<close> is \<open>state.stats.demand\<close>.
\<close>

record Demand =
  demandResidential :: real
  demandCommercial :: real
  demandIndustrial :: real

record GameState =
  grid :: Grid
  gridSize :: int
  demand :: "Demand option"
  disastersEnabled :: bool

text \<open>A building type argument may be \<open>null\<close>; the source tests it for truthiness.\<close>

definition truthy :: "string option \<Rightarrow> bool" where
  "truthy buildingType = (buildingType \<noteq> None \<and> buildingType \<noteq> Some [])"

definition clearFootprint :: "Grid \<Rightarrow> int \<Rightarrow> int \<Rightarrow> string \<Rightarrow> int \<Rightarrow> (Tile \<Rightarrow> Tile) \<Rightarrow> Grid" where
  "clearFootprint g originX originY buildingType gsz f =
     (case getBuildingSize buildingType of (w, h) \<Rightarrow>
        forBox 0 (h - 1) 0 (w - 1)
          (\<lambda>dy dx g'. (let clearX = originX + dx; clearY = originY + dy
                        in if clearX < gsz \<and> clearY < gsz then updTile g' clearX clearY f else g'))
          g)"

definition placeBuilding :: "Tables \<Rightarrow> 'a GameState_scheme \<Rightarrow> int \<Rightarrow> int \<Rightarrow> string option \<Rightarrow> ZoneType option \<Rightarrow> 'a GameState_scheme" where
  "placeBuilding T state x y buildingType z =
     (case tileAt (grid state) x y of
        None \<Rightarrow> state
      | Some tile \<Rightarrow>
        if btype (building tile) = ''water'' then state
        else if buildingType = Some ''road''
                \<and> btype (building tile) \<notin> set [''grass'', ''tree'', ''road'', ''rail''] then state
        else if buildingType = Some ''rail''
                \<and> btype (building tile) \<notin> set [''grass'', ''tree'', ''rail'', ''road''] then state
        else if truthy buildingType \<and> buildingType \<noteq> Some ''road'' \<and> buildingType \<noteq> Some ''rail''
                \<and> (btype (building tile) = ''road'' \<or> btype (building tile) = ''bridge'') then state
        else if truthy buildingType \<and> buildingType \<noteq> Some ''road'' \<and> buildingType \<noteq> Some ''rail''
                \<and> btype (building tile) = ''rail'' then state
        else
          (let newGrid = grid state
           in case z of
              Some zn \<Rightarrow>
                (if zn = zone_none then
                   (case findBuildingOrigin newGrid x y (gridSize state) of
                      Some (originX, originY, originType) \<Rightarrow>
                        state\<lparr>grid := clearFootprint newGrid originX originY originType (gridSize state)
                                 (\<lambda>t. t\<lparr>building := createBuilding ''grass'', zone := zone_none\<rparr>)\<rparr>
                    | None \<Rightarrow>
                        if zone tile = zone_none then state
                        else state\<lparr>grid := updTile newGrid x y
                                 (\<lambda>t. t\<lparr>zone := zone_none, building := createBuilding ''grass''\<rparr>)\<rparr>)
                 else if btype (building tile) \<notin> set [''grass'', ''tree'', ''road''] then state
                 else state\<lparr>grid := updTile newGrid x y (\<lambda>t. t\<lparr>zone := zn\<rparr>)\<rparr>)
            | None \<Rightarrow>
                (case (if truthy buildingType then buildingType else None) of
                   None \<Rightarrow> state\<lparr>grid := newGrid\<rparr>
                 | Some bt \<Rightarrow>
                   (case getBuildingSize bt of (w, h) \<Rightarrow>
                     (let waterCheck = getWaterAdjacency newGrid x y w h (gridSize state);
                          shouldFlip = (requiresWaterAdjacency bt \<and> snd waterCheck);
                          flip = (\<lambda>g'. if shouldFlip
                                        then updTile g' x y (\<lambda>t. t\<lparr>building := (building t)\<lparr>flipped := Some True\<rparr>\<rparr>)
                                        else g')
                      in if requiresWaterAdjacency bt \<and> \<not> fst waterCheck then state
                         else if w > 1 \<or> h > 1 then
                           (if \<not> canPlaceMultiTileBuilding newGrid x y w h (gridSize state) then state
                            else state\<lparr>grid := flip (applyBuildingFootprint T newGrid x y bt zone_none 1 None)\<rparr>)
                         else if btype (building tile) \<notin> set [''grass'', ''tree'', ''road'', ''rail''] then state
                         else if bt = ''rail'' \<and> btype (building tile) = ''road'' then
                           state\<lparr>grid := flip (updTile newGrid x y (\<lambda>t. t\<lparr>hasRailOverlay := Some True\<rparr>))\<rparr>
                         else if bt = ''road'' \<and> btype (building tile) = ''rail'' then
                           state\<lparr>grid := flip (updTile newGrid x y
                              (\<lambda>t. t\<lparr>building := createBuilding ''road'', hasRailOverlay := Some True,
                                      zone := zone_none\<rparr>))\<rparr>
                         else if bt = ''rail'' \<and> hasRailOverlay tile = Some True then
                           state\<lparr>grid := flip newGrid\<rparr>
                         else if bt = ''road'' \<and> hasRailOverlay tile = Some True then
                           state\<lparr>grid := flip newGrid\<rparr>
                         else
                           state\<lparr>grid := flip (updTile newGrid x y
                              (\<lambda>t. (if bt \<noteq> ''road''
                                     then t\<lparr>building := createBuilding bt, zone := zone_none,
                                            hasRailOverlay := Some False\<rparr>
                                     else t\<lparr>building := createBuilding bt, zone := zone_none\<rparr>)))\<rparr>)))))"

section \<open>Bridges\<close>

definition trackName :: "TrackType \<Rightarrow> string" where
  "trackName tt = (case tt of track_road \<Rightarrow> ''road'' | track_rail \<Rightarrow> ''rail'')"


definition getBridgeTypeForSpan :: "int \<Rightarrow> BridgeType" where
  "getBridgeTypeForSpan spanLen =
     (if spanLen = 1 then small
      else if spanLen \<le> BRIDGE_TYPE_THRESHOLDS_large then large
      else suspension)"


definition createBridgeBuilding :: "BridgeType \<Rightarrow> BridgeOrientation \<Rightarrow> int \<Rightarrow> BridgePosition \<Rightarrow> int \<Rightarrow> int \<Rightarrow> TrackType \<Rightarrow> Building" where
  "createBridgeBuilding bt orientation variant position index spanLen trackType =
     \<lparr> btype = ''bridge'', level = 0, population = 0, jobs = 0, powered = True, watered = True,
       onFire = False, fireProgress = 0, age = 0, constructionProgress = Some 100,
       abandoned = False, flipped = None, bridgeType = Some bt,
       bridgeOrientation = Some orientation, bridgeVariant = Some variant,
       bridgePosition = Some position, bridgeIndex = Some index, bridgeSpan = Some spanLen,
       bridgeTrackType = Some trackType \<rparr>"

record BridgeOpportunity =
  oppStartX :: int
  oppStartY :: int
  oppEndX :: int
  oppEndY :: int
  oppOrientation :: BridgeOrientation
  oppSpan :: int
  oppBridgeType :: BridgeType
  oppWaterTiles :: "(int \<times> int) list"
  oppTrackType :: TrackType

text \<open>
  The \<open>while\<close> loop of \<open>scanForBridgeInDirection\<close>, with the current position and the
  water tiles collected so far. Only a water tile continues the loop, and the loop gives
  up once more than \<open>MAX_BRIDGE_SPAN\<close> are collected, which bounds it.
\<close>

function scanLoop :: "Grid \<Rightarrow> int \<Rightarrow> int \<Rightarrow> int \<Rightarrow> int \<Rightarrow> int \<Rightarrow> BridgeOrientation \<Rightarrow> TrackType \<Rightarrow> int \<Rightarrow> int \<Rightarrow> (int \<times> int) list \<Rightarrow> BridgeOpportunity option" where
  "scanLoop g gsz startX startY dx dy orientation trackType x y waterTiles =
     (if x \<ge> 0 \<and> x < gsz \<and> y \<ge> 0 \<and> y < gsz then
        (if btype (building (getTile g x y)) = ''water'' then
           (if int (length (waterTiles @ [(x, y)])) > MAX_BRIDGE_SPAN then None
            else scanLoop g gsz startX startY dx dy orientation trackType (x + dx) (y + dy)
                   (waterTiles @ [(x, y)]))
         else if btype (building (getTile g x y)) = trackName trackType then
           (if length waterTiles > 0 then
              Some \<lparr> oppStartX = startX, oppStartY = startY, oppEndX = x, oppEndY = y,
                     oppOrientation = orientation, oppSpan = int (length waterTiles),
                     oppBridgeType = getBridgeTypeForSpan (int (length waterTiles)),
                     oppWaterTiles = waterTiles, oppTrackType = trackType \<rparr>
            else None)
         else if btype (building (getTile g x y)) = ''bridge'' then None
         else None)
      else None)"
  by pat_completeness auto
termination
  by (relation "measure (\<lambda>(g, gsz, startX, startY, dx, dy, orientation, trackType, x, y, waterTiles).
        nat (MAX_BRIDGE_SPAN + 1) - length waterTiles)")
     (auto simp: MAX_BRIDGE_SPAN_def)

definition scanForBridgeInDirection :: "Grid \<Rightarrow> int \<Rightarrow> int \<Rightarrow> int \<Rightarrow> int \<Rightarrow> int \<Rightarrow> BridgeOrientation \<Rightarrow> TrackType \<Rightarrow> BridgeOpportunity option" where
  "scanForBridgeInDirection g gsz startX startY dx dy orientation trackType =
     scanLoop g gsz startX startY dx dy orientation trackType (startX + dx) (startY + dy) []"





section \<open>Bulldozing\<close>

text \<open>
  The two \<open>while\<close> loops of \<open>findConnectedBridgeTiles\<close> walk from the tile next to the
  start along the bridge's axis, forwards and then backwards, while the tile is a bridge
  of the same orientation; \<open>bridgeWalk\<close> is one such loop.
\<close>

function bridgeWalk :: "Grid \<Rightarrow> int \<Rightarrow> BridgeOrientation \<Rightarrow> bool \<Rightarrow> int \<Rightarrow> int \<Rightarrow> (int \<times> int) list" where
  "bridgeWalk g gsz orientation forward cx cy =
     (if cx \<ge> 0 \<and> cx < gsz \<and> cy \<ge> 0 \<and> cy < gsz then
        (if btype (building (getTile g cx cy)) = ''bridge''
            \<and> bridgeOrientation (building (getTile g cx cy)) = Some orientation
         then (cx, cy) # bridgeWalk g gsz orientation forward
                 (if forward then cx + (if orientation = ns then 1 else 0)
                  else cx - (if orientation = ns then 1 else 0))
                 (if forward then cy + (if orientation = ns then 0 else 1)
                  else cy - (if orientation = ns then 0 else 1))
         else [])
      else [])"
  by pat_completeness auto
termination
  by (relation "measure (\<lambda>(g, gsz, orientation, forward, cx, cy).
        if forward then nat (gsz - (if orientation = ns then cx else cy))
        else nat ((if orientation = ns then cx else cy) + 1))")
     auto

definition findConnectedBridgeTiles :: "Grid \<Rightarrow> int \<Rightarrow> int \<Rightarrow> int \<Rightarrow> (int \<times> int) list" where
  "findConnectedBridgeTiles g gsz x y =
     (case tileAt g x y of
        None \<Rightarrow> []
      | Some tile \<Rightarrow>
          if btype (building tile) \<noteq> ''bridge'' then []
          else (let orientation = (case bridgeOrientation (building tile) of Some ori \<Rightarrow> ori | None \<Rightarrow> ns);
                    dx = (if orientation = ns then 1 else 0);
                    dy = (if orientation = ns then 0 else 1)
                in [(x, y)] @ bridgeWalk g gsz orientation True (x + dx) (y + dy)
                     @ bridgeWalk g gsz orientation False (x - dx) (y - dy)))"

definition findAdjacentBridgeTiles :: "Grid \<Rightarrow> int \<Rightarrow> int \<Rightarrow> int \<Rightarrow> (int \<times> int) list" where
  "findAdjacentBridgeTiles g gsz x y =
     (case find (\<lambda>(dx, dy).
              (let nx = x + dx; ny = y + dy
               in nx \<ge> 0 \<and> nx < gsz \<and> ny \<ge> 0 \<and> ny < gsz
                  \<and> btype (building (getTile g nx ny)) = ''bridge''
                  \<and> (bridgePosition (building (getTile g nx ny)) = Some pos_start
                      \<or> bridgePosition (building (getTile g nx ny)) = Some pos_end)))
            [(- 1, 0), (1, 0), (0, - 1), (0, 1)] of
        Some (dx, dy) \<Rightarrow> findConnectedBridgeTiles g gsz (x + dx) (y + dy)
      | None \<Rightarrow> [])"

definition toWater :: "Tile \<Rightarrow> Tile" where
  "toWater t = t\<lparr>building := createBuilding ''water'', zone := zone_none, hasRailOverlay := Some False\<rparr>"

definition toGrass :: "Tile \<Rightarrow> Tile" where
  "toGrass t = t\<lparr>building := createBuilding ''grass'', zone := zone_none, hasRailOverlay := Some False\<rparr>"

definition bulldozeTile :: "'a GameState_scheme \<Rightarrow> int \<Rightarrow> int \<Rightarrow> 'a GameState_scheme" where
  "bulldozeTile state x y =
     (case tileAt (grid state) x y of
        None \<Rightarrow> state
      | Some tile \<Rightarrow>
        if btype (building tile) = ''water'' then state
        else
          (let newGrid = grid state
           in if btype (building tile) = ''bridge'' then
                state\<lparr>grid := fold (\<lambda>(bx, by) g'. updTile g' bx by toWater)
                                 (findConnectedBridgeTiles newGrid (gridSize state) x y) newGrid\<rparr>
              else if btype (building tile) = ''road''
                      \<and> length (findAdjacentBridgeTiles newGrid (gridSize state) x y) > 0 then
                state\<lparr>grid := fold (\<lambda>(bx, by) g'. updTile g' bx by toWater)
                                 (findAdjacentBridgeTiles newGrid (gridSize state) x y)
                                 (updTile newGrid x y toGrass)\<rparr>
              else
                (case findBuildingOrigin newGrid x y (gridSize state) of
                   Some (originX, originY, originType) \<Rightarrow>
                     state\<lparr>grid := clearFootprint newGrid originX originY originType (gridSize state) toGrass\<rparr>
                 | None \<Rightarrow> state\<lparr>grid := updTile newGrid x y toGrass\<rparr>)))"

text \<open>
  Example values of the tables, for the concrete runs below: the three zone lists name the
  building types that the rest of the source refers to (starter and consolidatable types
  first), and two types have statistics.
\<close>

definition exampleTables :: Tables where
  "exampleTables =
     \<lparr> BUILDING_STATS = map_of
         [(''house_small'', \<lparr> maxPop = 6, maxJobs = 0, statsPollution = 0, statsLandValue = 10,
                               statsPollutionType = None \<rparr>),
          (''factory_small'', \<lparr> maxPop = 0, maxJobs = 20, statsPollution = 15, statsLandValue = - 5,
                               statsPollutionType = Some ''toxic'' \<rparr>)],
       RESIDENTIAL_BUILDINGS = [''house_small'', ''house_medium'', ''mansion'', ''apartment_low'', ''apartment_high''],
       COMMERCIAL_BUILDINGS = [''shop_small'', ''shop_medium'', ''office_low'', ''office_high'', ''mall''],
       INDUSTRIAL_BUILDINGS = [''factory_small'', ''factory_medium'', ''warehouse'', ''factory_large''] \<rparr>"

text \<open>For C7: a 5x5 map whose top row is road, water, water, water, road.\<close>

definition bridgeMap :: Grid where
  "bridgeMap =
     fold (\<lambda>(x, t) g'. updTile g' x 0 (\<lambda>tl. tl\<lparr>building := createBuilding t\<rparr>))
       [(0, ''road''), (1, ''water''), (2, ''water''), (3, ''water''), (4, ''road'')] (grassGrid 5)"

definition bridgeState :: GameState where
  "bridgeState = \<lparr> grid = bridgeMap, gridSize = 5, demand = None, disastersEnabled = True \<rparr>"

text \<open>For C10: the run of bridge tiles through (x, y) along the bridge's axis.\<close>

definition isBridgeOf :: "Grid \<Rightarrow> BridgeOrientation \<Rightarrow> int \<Rightarrow> int \<Rightarrow> bool" where
  "isBridgeOf g orientation cx cy =
     (btype (building (getTile g cx cy)) = ''bridge''
      \<and> bridgeOrientation (building (getTile g cx cy)) = Some orientation)"

definition inBridgeRun :: "Grid \<Rightarrow> int \<Rightarrow> int \<Rightarrow> int \<Rightarrow> int \<Rightarrow> int \<Rightarrow> bool" where
  "inBridgeRun g gsz x y i j =
     (let orientation = (case bridgeOrientation (building (getTile g x y)) of Some ori \<Rightarrow> ori | None \<Rightarrow> ns)
      in if orientation = ns
         then j = y \<and> 0 \<le> i \<and> i < gsz
              \<and> list_all (\<lambda>c. c = x \<or> isBridgeOf g orientation c y) [min i x..max i x]
         else i = x \<and> 0 \<le> j \<and> j < gsz
              \<and> list_all (\<lambda>c. c = y \<or> isBridgeOf g orientation x c) [min j y..max j y])"


section \<open>Notions for the bridge claims\<close>

definition runTiles :: "int \<Rightarrow> int \<Rightarrow> int \<Rightarrow> int \<Rightarrow> nat \<Rightarrow> (int \<times> int) list" where
  "runTiles x y dx dy m = map (\<lambda>i. (x + int i * dx, y + int i * dy)) [0..<m]"

definition bridgedMap :: Grid where
  "bridgedMap =
     fold (\<lambda>(x, p, i) g'. updTile g' x 0
             (\<lambda>t. t\<lparr>building := createBridgeBuilding large ns 1 p i 3 track_road, zone := zone_none\<rparr>))
       [(1, pos_start, 0), (2, pos_middle, 1), (3, pos_end, 2)] bridgeMap"

definition inBounds :: "int \<Rightarrow> int \<Rightarrow> int \<Rightarrow> bool" where
  "inBounds gsz x y = (0 \<le> x \<and> x < gsz \<and> 0 \<le> y \<and> y < gsz)"

definition bridgeOpp :: BridgeOpportunity where
  "bridgeOpp = \<lparr> oppStartX = 0, oppStartY = 0, oppEndX = 4, oppEndY = 0, oppOrientation = ns,
       oppSpan = 3, oppBridgeType = large, oppWaterTiles = [(1, 0), (2, 0), (3, 0)],
       oppTrackType = track_road \<rparr>"










section \<open>Notions for the bulldozing claim\<close>

definition bridgedState :: GameState where
  "bridgedState = bridgeState\<lparr>grid := bridgedMap\<rparr>"

section \<open>Reachability of a road\<close>

text \<open>
  \<open>hasRoadAccess\<close> works on two module-level buffers that outlive the call:
  \<open>roadAccessVisited\<close>, a \<open>Uint8Array\<close> of 128 * 128 cells, and \<open>roadAccessQueue\<close>, an
  \<open>Int16Array\<close> of 3 * 256 cells. The visited buffer is a function from indices to
  marks, and its contents on entry are an argument of the model; a typed array ignores a
  write outside its length and reads \<open>undefined\<close> there, which the two accessors write
  out. The queue is the list of entries between \<open>queueHead\<close> and \<open>queueTail\<close>: every
  cell read was written earlier in the same call, so its contents on entry play no role,
  but its capacity does, through \<open>queueTail\<close>. An \<open>Int16Array\<close> stores modulo
  \<open>2 ^ 16\<close>.
\<close>

type_synonym Visited = "int \<Rightarrow> bool"

definition VISITED_LENGTH :: int where
  "VISITED_LENGTH = 128 * 128"

definition QUEUE_LENGTH :: int where
  "QUEUE_LENGTH = 3 * 256"

definition visitedGet :: "Visited \<Rightarrow> int \<Rightarrow> bool" where
  "visitedGet v idx = (0 \<le> idx \<and> idx < VISITED_LENGTH \<and> v idx)"

definition visitedSet :: "Visited \<Rightarrow> int \<Rightarrow> bool \<Rightarrow> Visited" where
  "visitedSet v idx b = (if 0 \<le> idx \<and> idx < VISITED_LENGTH then v(idx := b) else v)"

definition toInt16 :: "int \<Rightarrow> int" where
  "toInt16 v = (v + 32768) mod 65536 - 32768"

text \<open>
  The inner \<open>for\<close> loop over the four neighbours of a dequeued tile. The result is
  (found, queue, queueTail, visited); \<open>found\<close> is the \<open>return true\<close>.
\<close>

fun visitNeighbors :: "Grid \<Rightarrow> int \<Rightarrow> ZoneType \<Rightarrow> int \<Rightarrow> (int \<times> int) list \<Rightarrow> (int \<times> int \<times> int) list \<Rightarrow> int \<Rightarrow> Visited \<Rightarrow> bool \<times> (int \<times> int \<times> int) list \<times> int \<times> Visited" where
  "visitNeighbors g sz startZone dst [] queue queueTail visited = (False, queue, queueTail, visited)"
| "visitNeighbors g sz startZone dst ((nx, ny) # rest) queue queueTail visited =
     (if nx < 0 \<or> nx \<ge> sz \<or> ny < 0 \<or> ny \<ge> sz
      then visitNeighbors g sz startZone dst rest queue queueTail visited
      else if visitedGet visited (ny * sz + nx)
      then visitNeighbors g sz startZone dst rest queue queueTail visited
      else if btype (building (getTile g nx ny)) = ''road'' \<or> btype (building (getTile g nx ny)) = ''bridge''
      then (True, queue, queueTail, visitedSet visited (ny * sz + nx) True)
      else if (zone (getTile g nx ny) = startZone \<and> btype (building (getTile g nx ny)) \<noteq> ''water'')
              \<and> queueTail < QUEUE_LENGTH - 3
      then visitNeighbors g sz startZone dst rest
             (queue @ [(toInt16 nx, toInt16 ny, toInt16 (dst + 1))]) (queueTail + 3)
             (visitedSet visited (ny * sz + nx) True)
      else visitNeighbors g sz startZone dst rest queue queueTail
             (visitedSet visited (ny * sz + nx) True))"

lemma visitNeighbors_measure:
  "visitNeighbors g sz startZone dst nbs queue queueTail visited = (found, queue', queueTail', visited')
   \<Longrightarrow> nat (QUEUE_LENGTH - queueTail') + length queue' \<le> nat (QUEUE_LENGTH - queueTail) + length queue"
proof (induction nbs arbitrary: queue queueTail visited)
  case Nil
  then show ?case by simp
next
  case (Cons p nbs)
  obtain nx ny where p: "p = (nx, ny)" by (cases p)
  show ?case
    using Cons.prems Cons.IH
    by (auto simp: p QUEUE_LENGTH_def split: if_splits) fastforce
qed

text \<open>The \<open>while\<close> loop over the queue. The result is (found, visited).\<close>

function roadAccessLoop :: "Grid \<Rightarrow> int \<Rightarrow> ZoneType \<Rightarrow> int \<Rightarrow> (int \<times> int \<times> int) list \<Rightarrow> int \<Rightarrow> Visited \<Rightarrow> bool \<times> Visited" where
  "roadAccessLoop g sz startZone maxDistance [] queueTail visited = (False, visited)"
| "roadAccessLoop g sz startZone maxDistance ((cx, cy, dst) # queue) queueTail visited =
     (if dst \<ge> maxDistance then roadAccessLoop g sz startZone maxDistance queue queueTail visited
      else (case visitNeighbors g sz startZone dst
                   [(cx - 1, cy), (cx + 1, cy), (cx, cy - 1), (cx, cy + 1)] queue queueTail visited of
              (found, queue', queueTail', visited') \<Rightarrow>
                if found then (True, visited')
                else roadAccessLoop g sz startZone maxDistance queue' queueTail' visited'))"
  by pat_completeness auto
termination
  apply (relation "measure (\<lambda>(g, sz, startZone, maxDistance, queue, queueTail, visited).
          nat (QUEUE_LENGTH - queueTail) + length queue)")
    apply simp
   apply simp
  apply (clarsimp simp del: visitNeighbors.simps)
  apply (drule sym)
  apply (drule visitNeighbors_measure)
  apply simp
  done

definition hasRoadAccess :: "Grid \<Rightarrow> int \<Rightarrow> int \<Rightarrow> int \<Rightarrow> int \<Rightarrow> Visited \<Rightarrow> bool \<times> Visited" where
  "hasRoadAccess g x y sz maxDistance visited0 =
     (let startZone = zone (getTile g x y)
      in if startZone = zone_none then (False, visited0)
         else
           (let minClearX = max 0 (x - maxDistance);
                maxClearX = min (sz - 1) (x + maxDistance);
                minClearY = max 0 (y - maxDistance);
                maxClearY = min (sz - 1) (y + maxDistance);
                cleared = forBox minClearY maxClearY minClearX maxClearX
                            (\<lambda>cy cx v. visitedSet v (cy * sz + cx) False) visited0
            in roadAccessLoop g sz startZone maxDistance [(toInt16 x, toInt16 y, toInt16 0)] 3
                 (visitedSet cleared (y * sz + x) True)))"

definition DEFAULT_MAX_DISTANCE :: int where
  "DEFAULT_MAX_DISTANCE = 8"

declare scanLoop.simps [simp del] bridgeWalk.simps [simp del] roadAccessLoop.simps [simp del]

section \<open>Growth of a building\<close>

definition setBuilding :: "Grid \<Rightarrow> int \<Rightarrow> int \<Rightarrow> Building \<Rightarrow> Grid" where
  "setBuilding g x y b = updTile g x y (\<lambda>t. t\<lparr>building := b\<rparr>)"

definition modBuilding :: "Grid \<Rightarrow> int \<Rightarrow> int \<Rightarrow> (Building \<Rightarrow> Building) \<Rightarrow> Grid" where
  "modBuilding g x y f = updTile g x y (\<lambda>t. t\<lparr>building := f (building t)\<rparr>)"

text \<open>
  \<open>Math.random()\<close> is an oracle \<open>rnd\<close> giving the successive draws, with the number of
  draws made so far threaded through. A function that draws returns the new count.
\<close>

definition getConstructionSpeed :: "(nat \<Rightarrow> real) \<Rightarrow> nat \<Rightarrow> string \<Rightarrow> real \<times> nat" where
  "getConstructionSpeed rnd k buildingType =
     (case getBuildingSize buildingType of (w, h) \<Rightarrow>
        (let area = w * h;
             baseSpeed = 24 + rnd k * 12
         in ((baseSpeed / sqrt (real_of_int area)) / 1.3, Suc k)))"

definition isMergeableZoneTile :: "Tile \<Rightarrow> ZoneType \<Rightarrow> (int \<times> int) option \<Rightarrow> bool \<Rightarrow> bool" where
  "isMergeableZoneTile tile z excludeTile allowBuildingConsolidation =
     (if (case excludeTile of Some (ex, ey) \<Rightarrow> tileX tile = ex \<and> tileY tile = ey | None \<Rightarrow> False)
      then zone tile = z \<and> \<not> onFire (building tile) \<and> btype (building tile) \<noteq> ''water''
           \<and> btype (building tile) \<noteq> ''road''
      else if zone tile \<noteq> z then False
      else if onFire (building tile) then False
      else if btype (building tile) = ''water'' \<or> btype (building tile) = ''road''
              \<or> btype (building tile) = ''bridge'' then False
      else if btype (building tile) \<in> set MERGEABLE_TILE_TYPES then True
      else if allowBuildingConsolidation \<and> btype (building tile) \<in> set (CONSOLIDATABLE_BUILDINGS z) then True
      else False)"

definition footprintAvailable :: "Grid \<Rightarrow> int \<Rightarrow> int \<Rightarrow> int \<Rightarrow> int \<Rightarrow> ZoneType \<Rightarrow> int \<Rightarrow> (int \<times> int) option \<Rightarrow> bool \<Rightarrow> bool" where
  "footprintAvailable g originX originY width height z gsz excludeTile allowBuildingConsolidation =
     (if originX < 0 \<or> originY < 0 \<or> originX + width > gsz \<or> originY + height > gsz then False
      else list_all (\<lambda>dy. list_all (\<lambda>dx.
             isMergeableZoneTile (getTile g (originX + dx) (originY + dy)) z excludeTile
               allowBuildingConsolidation) [0..width - 1]) [0..height - 1])"

definition scoreFootprint :: "Grid \<Rightarrow> int \<Rightarrow> int \<Rightarrow> int \<Rightarrow> int \<Rightarrow> int \<Rightarrow> real" where
  "scoreFootprint g originX originY width height gsz =
     (let roadScore =
            sum_list (map (\<lambda>dy. sum_list (map (\<lambda>dx.
              sum_list (map (\<lambda>(ofx, ofy).
                 (let nx = originX + dx + ofx; ny = originY + dy + ofy
                  in if nx \<ge> 0 \<and> ny \<ge> 0 \<and> nx < gsz \<and> ny < gsz
                        \<and> (btype (building (getTile g nx ny)) = ''road''
                            \<or> btype (building (getTile g nx ny)) = ''bridge'')
                     then (1::int) else 0))
                [(- 1, 0), (1, 0), (0, - 1), (0, 1)]))
              [0..width - 1])) [0..height - 1])
      in real_of_int roadScore - real_of_int (width * height) * 0.25)"

text \<open>
  The candidates are collected in loop order and sorted by descending score with a stable
  sort, so the first candidate of the highest score is taken.
\<close>

definition findFootprintIncludingTile :: "Grid \<Rightarrow> int \<Rightarrow> int \<Rightarrow> int \<Rightarrow> int \<Rightarrow> ZoneType \<Rightarrow> int \<Rightarrow> bool \<Rightarrow> (int \<times> int) option" where
  "findFootprintIncludingTile g x y width height z gsz allowBuildingConsolidation =
     (let candidates =
            concat (map (\<lambda>oy. concat (map (\<lambda>ox.
              if \<not> footprintAvailable g ox oy width height z gsz (Some (x, y)) allowBuildingConsolidation
              then []
              else if x < ox \<or> x \<ge> ox + width \<or> y < oy \<or> y \<ge> oy + height then []
              else [(ox, oy, scoreFootprint g ox oy width height gsz)])
              [x - (width - 1)..x])) [y - (height - 1)..y])
      in case sort_key (\<lambda>(ox, oy, score). - score) candidates of
           [] \<Rightarrow> None
         | (ox, oy, score) # rest \<Rightarrow> Some (ox, oy))"

definition zoneDemand :: "Demand option \<Rightarrow> ZoneType \<Rightarrow> real" where
  "zoneDemand dem z =
     (case dem of
        Some d \<Rightarrow> (if z = residential then demandResidential d
                   else if z = commercial then demandCommercial d
                   else if z = industrial then demandIndustrial d
                   else 0)
      | None \<Rightarrow> 0)"

text \<open>\<open>a[y]?.[x] ?? false\<close> on a coverage array.\<close>

definition get2OrFalse :: "bool list list \<Rightarrow> int \<Rightarrow> int \<Rightarrow> bool" where
  "get2OrFalse a x y =
     (if 0 \<le> y \<and> y < int (length a) \<and> 0 \<le> x \<and> x < int (length (a ! nat y))
      then a ! nat y ! nat x else False)"

text \<open>
  The consolidation step of \<open>evolveBuilding\<close>: the building is rebuilt as the target
  type on a footprint that includes its tile, or, without a footprint, gains a level.
  The result is the changed grid with the anchor's coordinates. The last component is not
  a value of the code: it records, for the claims about construction progress, the origin
  at which \<open>applyBuildingFootprint\<close> was called, if it was.
\<close>

definition consolidate :: "Tables \<Rightarrow> Grid \<Rightarrow> int \<Rightarrow> int \<Rightarrow> ZoneType \<Rightarrow> ServiceCoverage \<Rightarrow> int \<Rightarrow> string \<Rightarrow> bool \<Rightarrow> Grid \<times> int \<times> int \<times> (int \<times> int) option" where
  "consolidate T g3 x y z services targetLevel targetType allowBuildingConsolidation =
     (case getBuildingSize targetType of (w, h) \<Rightarrow>
        (case findFootprintIncludingTile g3 x y w h z (int (length g3)) allowBuildingConsolidation of
           Some (fx, fy) \<Rightarrow>
             (applyBuildingFootprint T g3 fx fy targetType z (nat targetLevel) (Some services), fx, fy,
              Some (fx, fy))
         | None \<Rightarrow>
             (if targetLevel > int (level (building (getTile g3 x y)))
              then modBuilding g3 x y (\<lambda>b. b\<lparr>level := nat (min targetLevel (int (level b) + 1))\<rparr>)
              else g3, x, y, None)))"

text \<open>The anchor's utilities, level and occupancy, set at the end of \<open>evolveBuilding\<close>.\<close>

definition settleAnchor :: "Tables \<Rightarrow> Grid \<Rightarrow> int \<Rightarrow> int \<Rightarrow> ServiceCoverage \<Rightarrow> int \<Rightarrow> Grid" where
  "settleAnchor T g4 anchorX anchorY services targetLevel =
     modBuilding g4 anchorX anchorY
       (\<lambda>ab. (let ab1 = ab\<lparr>powered := get2 (powerCov services) anchorX anchorY,
                            watered := get2 (waterCov services) anchorX anchorY,
                            level := nat (max (int (level ab)) (min targetLevel (int (level ab) + 1)))\<rparr>;
                    efficiency = (if powered ab1 then 0.5 else 0) + (if watered ab1 then 0.5 else (0::real))
                in ab1\<lparr>population :=
                         (case BUILDING_STATS T (btype ab1) of
                            Some st \<Rightarrow> if maxPop st > 0
                                       then \<lfloor>maxPop st * real (max 1 (level ab1)) * efficiency * 0.8\<rfloor>
                                       else 0
                          | None \<Rightarrow> 0),
                       jobs :=
                         (case BUILDING_STATS T (btype ab1) of
                            Some st \<Rightarrow> if maxJobs st > 0
                                       then \<lfloor>maxJobs st * real (max 1 (level ab1)) * efficiency * 0.8\<rfloor>
                                       else 0
                          | None \<Rightarrow> 0)\<rparr>))"

text \<open>
  The last part of \<open>evolveBuilding\<close>, reached by an occupied building that stays: ageing,
  the target level, consolidation, and the anchor's occupancy.
\<close>

definition growBuilding :: "Tables \<Rightarrow> (nat \<Rightarrow> real) \<Rightarrow> Grid \<Rightarrow> int \<Rightarrow> int \<Rightarrow> ServiceCoverage \<Rightarrow> real \<Rightarrow> nat \<Rightarrow> Building \<times> Grid \<times> nat \<times> (int \<times> int) option" where
  "growBuilding T rnd g1 x y services zoneDemandValue k =
     (let z = zone (getTile g1 x y);
          hasPower = powered (building (getTile g1 x y));
          hasWater = watered (building (getTile g1 x y));
          landVal = landValue (getTile g1 x y);
          g3 = modBuilding g1 x y (\<lambda>b. b\<lparr>age := age b + 1\<rparr>);
          b3 = building (getTile g3 x y);
          buildingList = (if z = residential then RESIDENTIAL_BUILDINGS T
                          else if z = commercial then COMMERCIAL_BUILDINGS T
                          else if z = industrial then INDUSTRIAL_BUILDINGS T else []);
          serviceCoverage = (get2 (policeCov services) x y + get2 (fireCov services) x y
                             + get2 (healthCov services) x y + get2 (educationCov services) x y) / 4;
          demandLevelBoost = max 0 ((zoneDemandValue - 30) / 70) * 0.7;
          targetLevel = min 5 (max 1 \<lfloor>landVal / 24 + serviceCoverage / 28 + age b3 / 60 + demandLevelBoost\<rfloor>);
          targetIndex = min (int (length buildingList) - 1) (targetLevel - 1);
          targetType = listAt buildingList targetIndex;
          isSmall = ((z = residential \<and> (btype b3 = ''house_small'' \<or> btype b3 = ''house_medium''))
                     \<or> (z = commercial \<and> (btype b3 = ''shop_small'' \<or> btype b3 = ''shop_medium''))
                     \<or> (z = industrial \<and> btype b3 = ''factory_small''));
          consolidationChance =
            0.08 + (if zoneDemandValue > 30 \<and> isSmall
                    then min 0.25 ((zoneDemandValue - 30) / 300) + (if zoneDemandValue > 70 then 0.05 else 0)
                    else 0);
          allowBuildingConsolidation = (zoneDemandValue > 30 \<and> isSmall \<and> zoneDemandValue > 70);
          ageRequirement = 12;
          hasUtilitiesForConsolidation = (hasPower \<and> hasWater);
          draws = (hasUtilitiesForConsolidation \<and> age b3 > ageRequirement
                   \<and> (targetLevel > int (level b3) \<or> targetType \<noteq> btype b3));
          k' = (if draws then Suc k else k)
      in case (if draws \<and> rnd k < consolidationChance
               then consolidate T g3 x y z services targetLevel targetType allowBuildingConsolidation
               else (g3, x, y, None)) of
           (g4, anchorX, anchorY, placed) \<Rightarrow>
             (let g5 = settleAnchor T g4 anchorX anchorY services targetLevel
              in (building (getTile g5 x y), g5, k', placed)))"

text \<open>
  \<open>evolveBuilding\<close> changes the grid it is given and returns a building, which its caller
  stores at (x, y); the model returns the building, the changed grid and the draw count,
  and as last component the origin at which \<open>applyBuildingFootprint\<close> was called, if it
  was (a record for the claims about construction progress, not a value of the code).
\<close>

definition evolveBuilding :: "Tables \<Rightarrow> (nat \<Rightarrow> real) \<Rightarrow> Grid \<Rightarrow> int \<Rightarrow> int \<Rightarrow> ServiceCoverage \<Rightarrow> Demand option \<Rightarrow> nat \<Rightarrow> Building \<times> Grid \<times> nat \<times> (int \<times> int) option" where
  "evolveBuilding T rnd g x y services dem k =
     (let tile = getTile g x y; b = building tile; z = zone tile
      in if z = zone_none \<or> btype b = ''grass'' \<or> btype b = ''water'' \<or> btype b = ''road''
            \<or> btype b = ''bridge'' then (b, g, k, None)
         else if btype b = ''empty'' then
           (let b' = b\<lparr>powered := get2 (powerCov services) x y, watered := get2 (waterCov services) x y,
                       population := 0, jobs := 0\<rparr>
            in (b', setBuilding g x y b', k, None))
         else
           (let b1 = b\<lparr>powered := get2 (powerCov services) x y, watered := get2 (waterCov services) x y\<rparr>;
                g1 = setBuilding g x y b1;
                hasPower = powered b1;
                hasWater = watered b1;
                isStarter = isStarterBuilding x y (btype b1)
            in if \<not> isStarter \<and> (\<not> hasPower \<or> \<not> hasWater) then (b1, g1, k, None)
               else if (case constructionProgress b1 of Some p \<Rightarrow> p < 100 | None \<Rightarrow> False) then
                 (case getConstructionSpeed rnd k (btype b1) of (speed, k') \<Rightarrow>
                    (let b2 = b1\<lparr>constructionProgress := Some (min 100 (the (constructionProgress b1) + speed)),
                                 population := 0, jobs := 0\<rparr>
                     in (b2, setBuilding g1 x y b2, k', None)))
               else
                 (let zoneDemandValue = zoneDemand dem z
                  in if abandoned b1 then
                       (let clearingChance = min 0.12 ((zoneDemandValue - 10) / 600);
                            k' = (if zoneDemandValue > 10 then Suc k else k)
                        in if zoneDemandValue > 10 \<and> rnd k < clearingChance then
                             (case getBuildingSize (btype b1) of (w, h) \<Rightarrow>
                                (let g2 = (if w > 1 \<or> h > 1
                                           then forBox 0 (h - 1) 0 (w - 1)
                                                  (\<lambda>dy dx g'. (case tileAt g' (x + dx) (y + dy) of
                                                       Some clearTile \<Rightarrow>
                                                         setBuilding g' (x + dx) (y + dy)
                                                           ((createBuilding ''grass'')\<lparr>
                                                              powered := get2OrFalse (powerCov services) (x + dx) (y + dy),
                                                              watered := get2OrFalse (waterCov services) (x + dx) (y + dy)\<rparr>)
                                                     | None \<Rightarrow> g')) g1
                                           else g1)
                                 in ((createBuilding ''grass'')\<lparr>powered := powered b1, watered := watered b1\<rparr>,
                                     g2, k', None)))
                           else
                             (let b' = b1\<lparr>population := 0, jobs := 0, age := age b1 + 0.1\<rparr>
                              in (b', setBuilding g1 x y b', k', None)))
                     else
                       (let checks = (zoneDemandValue < - 20 \<and> age b1 > 30);
                            abandonmentChance = min 0.02 (\<bar>zoneDemandValue + 20\<bar> / 4000);
                            utilityPenalty = (if isStarter then 0
                                              else (if \<not> hasPower then 0.005 else 0)
                                                   + (if \<not> hasWater then 0.005 else 0));
                            levelPenalty = (if level b1 \<le> 2 then 0.003 else 0);
                            k' = (if checks then Suc k else k)
                        in if checks \<and> rnd k < abandonmentChance + utilityPenalty + levelPenalty then
                             (let b' = b1\<lparr>abandoned := True, population := 0, jobs := 0\<rparr>
                              in (b', setBuilding g1 x y b', k', None))
                           else growBuilding T rnd g1 x y services zoneDemandValue k'))))"

section \<open>One tick\<close>

text \<open>
  \<open>simulateTick\<close> builds \<open>newGrid\<close> from the rows of \<open>state.grid\<close>: at first
  \<open>newGrid[y]\<close> is the very array \<open>state.grid[y]\<close>, and a row is replaced by a copy (of
  its tiles and their buildings) the first time \<open>getModifiableTile\<close> or one of the inline
  copies reaches it. Whether a write through \<open>newGrid\<close> reaches the caller's grid depends
  on that sharing, so rows live in a store: \<open>heap\<close> maps an address to a row,
  \<open>inputRows\<close> and \<open>newRows\<close> give the addresses of the rows of \<open>state.grid\<close> and of
  \<open>newGrid\<close>. Tiles and buildings are never shared between rows, so rows are the unit
  of sharing. The store also carries \<open>modifiedRows\<close>, the visited buffer of
  \<open>hasRoadAccess\<close> and the number of random draws made. Its last field,
  \<open>footprintLog\<close>, is not a value of the code and nothing in the model reads it: it lists
  the origins at which the pass has called \<open>applyBuildingFootprint\<close>, that is, the tiles
  whose building was replaced by a new one; the claims about construction progress refer
  to it.
\<close>

record TickStore =
  heap :: "nat \<Rightarrow> Tile list"
  inputRows :: "nat list"
  newRows :: "nat list"
  nextAddr :: nat
  modifiedRows :: "int set"
  visitedBuf :: Visited
  drawCount :: nat
  footprintLog :: "(int \<times> int) list"

definition viewInput :: "TickStore \<Rightarrow> Grid" where
  "viewInput s = map (heap s) (inputRows s)"

definition viewNew :: "TickStore \<Rightarrow> Grid" where
  "viewNew s = map (heap s) (newRows s)"

text \<open>The store at the start of the grid pass: both grids refer to the same rows.\<close>

definition initStore :: "Grid \<Rightarrow> Visited \<Rightarrow> nat \<Rightarrow> TickStore" where
  "initStore g visited0 k =
     \<lparr> heap = (\<lambda>a. g ! a), inputRows = [0..<length g], newRows = [0..<length g],
       nextAddr = length g, modifiedRows = {}, visitedBuf = visited0, drawCount = k,
       footprintLog = [] \<rparr>"

text \<open>
  \<open>newGrid[y] = state.grid[y].map(t => ({ ...t, building: { ...t.building } }))\<close>, guarded
  by \<open>modifiedRows\<close>: the copy is a new row with the present contents of the input row.
\<close>

definition copyRow :: "int \<Rightarrow> TickStore \<Rightarrow> TickStore" where
  "copyRow y s =
     (if y \<in> modifiedRows s then s
      else s\<lparr> heap := (heap s)(nextAddr s := heap s (inputRows s ! nat y)),
               newRows := (newRows s)[nat y := nextAddr s],
               nextAddr := Suc (nextAddr s),
               modifiedRows := insert y (modifiedRows s) \<rparr>)"

text \<open>
  A change made through \<open>newGrid\<close>: the rows \<open>newGrid\<close> refers to are rewritten in the
  store, whoever else refers to them.
\<close>

definition writeNew :: "Grid \<Rightarrow> TickStore \<Rightarrow> TickStore" where
  "writeNew g' s = s\<lparr> heap := fold (\<lambda>(a, row) h. h(a := row)) (zip (newRows s) g') (heap s) \<rparr>"

definition mutateNew :: "(Grid \<Rightarrow> Grid) \<Rightarrow> TickStore \<Rightarrow> TickStore" where
  "mutateNew f s = writeNew (f (viewNew s)) s"

definition curTile :: "TickStore \<Rightarrow> int \<Rightarrow> int \<Rightarrow> Tile" where
  "curTile s x y = getTile (viewNew s) x y"

definition draw :: "(nat \<Rightarrow> real) \<Rightarrow> TickStore \<Rightarrow> real" where
  "draw rnd s = rnd (drawCount s)"

definition drawn :: "TickStore \<Rightarrow> TickStore" where
  "drawn s = s\<lparr> drawCount := Suc (drawCount s) \<rparr>"

text \<open>The note that \<open>applyBuildingFootprint\<close> is called at an origin.\<close>

definition logFootprint :: "(int \<times> int) option \<Rightarrow> TickStore \<Rightarrow> TickStore" where
  "logFootprint placed s =
     (case placed of None \<Rightarrow> s | Some origin \<Rightarrow> s\<lparr> footprintLog := footprintLog s @ [origin] \<rparr>)"

text \<open>The three tests that let the pass skip a tile (\<open>continue\<close>).\<close>

definition skipsTile :: "Tables \<Rightarrow> Tile \<Rightarrow> bool \<Rightarrow> bool \<Rightarrow> bool" where
  "skipsTile T originalTile newPowered newWatered =
     (let originalBuilding = building originalTile;
          needsPowerWaterUpdate = (powered originalBuilding \<noteq> newPowered \<or> watered originalBuilding \<noteq> newWatered);
          isCompletedServiceBuilding =
            (zone originalTile = zone_none \<and> constructionProgress originalBuilding = Some 100
             \<and> \<not> onFire originalBuilding \<and> btype originalBuilding \<noteq> ''grass''
             \<and> btype originalBuilding \<noteq> ''tree'' \<and> btype originalBuilding \<noteq> ''empty'')
      in ((btype originalBuilding = ''road'' \<or> btype originalBuilding = ''bridge'') \<and> \<not> needsPowerWaterUpdate)
         \<or> (zone originalTile = zone_none
             \<and> (btype originalBuilding = ''grass'' \<or> btype originalBuilding = ''tree'')
             \<and> \<not> needsPowerWaterUpdate \<and> pollution originalTile < 0.01
             \<and> (case BUILDING_STATS T (btype originalBuilding) of
                   Some st \<Rightarrow> statsPollution st | None \<Rightarrow> 0) = 0)
         \<or> (isCompletedServiceBuilding \<and> \<not> needsPowerWaterUpdate \<and> pollution originalTile < 0.01))"

text \<open>Construction of a building on an unzoned tile.\<close>

definition constructStep :: "(nat \<Rightarrow> real) \<Rightarrow> int \<Rightarrow> int \<Rightarrow> TickStore \<Rightarrow> TickStore" where
  "constructStep rnd x y s =
     (let tile = curTile s x y
      in if zone tile = zone_none
            \<and> (case constructionProgress (building tile) of Some p \<Rightarrow> p < 100 | None \<Rightarrow> False)
            \<and> btype (building tile) \<notin> set NO_CONSTRUCTION_TYPES
         then (let isUtilityBuilding = (btype (building tile) = ''power_plant''
                                        \<or> btype (building tile) = ''water_tower'');
                   canConstruct = (isUtilityBuilding \<or> (powered (building tile) \<and> watered (building tile)))
               in if canConstruct
                  then (case getConstructionSpeed rnd (drawCount s) (btype (building tile)) of
                          (speed, k') \<Rightarrow>
                            (mutateNew (\<lambda>g. modBuilding g x y
                               (\<lambda>b. b\<lparr>constructionProgress := Some (min 100 (the (constructionProgress b) + speed))\<rparr>)) s)
                            \<lparr>drawCount := k'\<rparr>)
                  else s)
         else s)"

text \<open>A filler tile whose anchor is gone turns back into grass.\<close>

definition orphanStep :: "int \<Rightarrow> int \<Rightarrow> int \<Rightarrow> bool \<Rightarrow> bool \<Rightarrow> TickStore \<Rightarrow> TickStore" where
  "orphanStep sz x y newPowered newWatered s =
     (if btype (building (curTile s x y)) = ''empty''
         \<and> findBuildingOrigin (viewNew s) x y sz = None
      then mutateNew (\<lambda>g. setBuilding g x y
             ((createBuilding ''grass'')\<lparr>powered := newPowered, watered := newWatered\<rparr>)) s
      else s)"

text \<open>The inline copies of the rows a spawned footprint covers.\<close>

definition copyRows :: "int \<Rightarrow> int \<Rightarrow> int \<Rightarrow> TickStore \<Rightarrow> TickStore" where
  "copyRows sz y height s = fold (\<lambda>dy s'. if y + dy < sz then copyRow (y + dy) s' else s') [0..height - 1] s"

text \<open>A vacant zoned tile may get a new building; a developed zoned tile evolves.\<close>

definition developStep :: "Tables \<Rightarrow> (nat \<Rightarrow> real) \<Rightarrow> Demand option \<Rightarrow> ServiceCoverage \<Rightarrow> int \<Rightarrow> int \<Rightarrow> int \<Rightarrow> bool \<Rightarrow> bool \<Rightarrow> TickStore \<Rightarrow> TickStore" where
  "developStep T rnd dem services sz x y newPowered newWatered s =
     (let tile = curTile s x y
      in if zone tile \<noteq> zone_none \<and> btype (building tile) = ''grass'' then
           (case hasRoadAccess (viewNew s) x y sz DEFAULT_MAX_DISTANCE (visitedBuf s) of
              (roadAccess, visited') \<Rightarrow>
                (let s1 = s\<lparr>visitedBuf := visited'\<rparr>;
                     hasUtilities = (newPowered \<and> newWatered);
                     zoneDemandForSpawn = zoneDemand dem (zone tile);
                     baseSpawnChance = 0.05;
                     demandFactor = max 0 (min 1 ((zoneDemandForSpawn + 30) / 80));
                     spawnChance = baseSpawnChance * demandFactor;
                     buildingList = (if zone tile = residential then RESIDENTIAL_BUILDINGS T
                                     else if zone tile = commercial then COMMERCIAL_BUILDINGS T
                                     else INDUSTRIAL_BUILDINGS T);
                     candidate = listAt buildingList 0;
                     wouldBeStarter = isStarterBuilding x y candidate
                 in if roadAccess \<and> (hasUtilities \<or> wouldBeStarter)
                    then (if draw rnd s1 < spawnChance
                          then (case getBuildingSize candidate of (w, h) \<Rightarrow>
                                  if canPlaceMultiTileBuilding (viewNew s1) x y w h sz
                                  then mutateNew (\<lambda>g. applyBuildingFootprint T g x y candidate (zone tile) 1 (Some services))
                                         (logFootprint (Some (x, y)) (copyRows sz y h (drawn s1)))
                                  else drawn s1)
                          else drawn s1)
                    else s1))
         else if zone tile \<noteq> zone_none \<and> btype (building tile) \<noteq> ''grass'' then
           (case evolveBuilding T rnd (viewNew s) x y services dem (drawCount s) of
              (b, g', k', placed) \<Rightarrow>
                (writeNew (setBuilding g' x y b) (logFootprint placed s))\<lparr>drawCount := k'\<rparr>)
         else s)"

text \<open>Pollution produced or absorbed by the tile's own building.\<close>

definition emitStep :: "Tables \<Rightarrow> int \<Rightarrow> int \<Rightarrow> TickStore \<Rightarrow> TickStore" where
  "emitStep T x y s =
     (case BUILDING_STATS T (btype (building (curTile s x y))) of
        None \<Rightarrow> s
      | Some stats \<Rightarrow>
          if statsPollution stats \<noteq> 0 then
            (if statsPollution stats < 0
             then mutateNew (\<lambda>g. updTile g x y
                    (\<lambda>t. t\<lparr>pollution := max 0 (pollution t + statsPollution stats * 0.1)\<rparr>)) s
             else mutateNew (\<lambda>g. updTile g x y
                    (\<lambda>t. (let t' = t\<lparr>pollution := min 100 (pollution t + statsPollution stats * 0.05)\<rparr>
                           in if truthy (statsPollutionType stats) \<and> statsPollutionType stats \<noteq> Some ''none''
                              then t'\<lparr>pollutionType := statsPollutionType stats\<rparr> else t'))) s)
          else s)"

text \<open>
  A water tower cleans its own tile and scrubs its eight neighbours, reached through
  \<open>newGrid[y + cdy]?.[x + cdx]\<close> as they are, without a copy of their rows.
\<close>

definition scrubStep :: "int \<Rightarrow> int \<Rightarrow> TickStore \<Rightarrow> TickStore" where
  "scrubStep x y s =
     (if btype (building (curTile s x y)) = ''water_tower''
      then fold (\<lambda>(cdx, cdy) s'.
                   (case tileAt (viewNew s') (x + cdx) (y + cdy) of
                      Some n \<Rightarrow> mutateNew (\<lambda>g. updTile g (x + cdx) (y + cdy)
                                  (\<lambda>t. t\<lparr>pollution := max 0 (pollution t - 5)\<rparr>)) s'
                    | None \<Rightarrow> s'))
             [(0, 1), (0, - 1), (1, 0), (- 1, 0), (1, 1), (- 1, - 1), (1, - 1), (- 1, 1)]
             (mutateNew (\<lambda>g. updTile g x y (\<lambda>t. t\<lparr>pollution := 0\<rparr>)) s)
      else s)"

text \<open>Heavy pollution spreads to the four neighbours, whose rows are copied first.\<close>

definition spreadStep :: "(nat \<Rightarrow> real) \<Rightarrow> int \<Rightarrow> int \<Rightarrow> int \<Rightarrow> TickStore \<Rightarrow> TickStore" where
  "spreadStep rnd sz x y s =
     (if pollution (curTile s x y) > 30
      then (let spreadAmount = (if btype (building (curTile s x y)) = ''water'' then 4 else (1::real))
            in fold (\<lambda>(dx, dy) s'.
                  (let nx = x + dx; ny = y + dy
                   in if nx \<ge> 0 \<and> nx < sz \<and> ny \<ge> 0 \<and> ny < sz
                      then (let s1 = copyRow ny s'; tile = curTile s1 x y; neighbor = curTile s1 nx ny
                            in if btype (building neighbor) = ''water''
                               then mutateNew (\<lambda>g. updTile g nx ny
                                      (\<lambda>t. t\<lparr>pollution := min 100 (pollution t + spreadAmount),
                                              pollutionType := pollutionType tile\<rparr>)) s1
                               else if pollution neighbor < pollution tile
                               then mutateNew (\<lambda>g. updTile g nx ny
                                      (\<lambda>t. (let t' = t\<lparr>pollution := min 100 (pollution t + spreadAmount * 0.1)\<rparr>
                                             in if draw rnd s1 > 0.5
                                                then t'\<lparr>pollutionType := pollutionType tile\<rparr> else t')))
                                      (drawn s1)
                               else s1)
                      else s'))
               [(0, 1), (0, - 1), (1, 0), (- 1, 0)] s)
      else s)"

definition decayStep :: "int \<Rightarrow> int \<Rightarrow> TickStore \<Rightarrow> TickStore" where
  "decayStep x y s = mutateNew (\<lambda>g. updTile g x y (\<lambda>t. t\<lparr>pollution := pollution t * 0.99\<rparr>)) s"

text \<open>A burning tile is put out or burns on, down to grass.\<close>

definition burnStep :: "(nat \<Rightarrow> real) \<Rightarrow> bool \<Rightarrow> ServiceCoverage \<Rightarrow> int \<Rightarrow> int \<Rightarrow> TickStore \<Rightarrow> TickStore" where
  "burnStep rnd disasters services x y s =
     (if disasters \<and> onFire (building (curTile s x y))
      then (let fireCoverage = get2 (fireCov services) x y;
                fightingChance = fireCoverage / 300
            in if draw rnd s < fightingChance
               then mutateNew (\<lambda>g. modBuilding g x y (\<lambda>b. b\<lparr>onFire := False, fireProgress := 0\<rparr>)) (drawn s)
               else mutateNew (\<lambda>g. updTile g x y
                      (\<lambda>t. (let b = (building t)\<lparr>fireProgress := fireProgress (building t) + 2 / 3\<rparr>
                             in if fireProgress b \<ge> 100
                                then t\<lparr>building := createBuilding ''grass'', zone := zone_none\<rparr>
                                else t\<lparr>building := b\<rparr>))) (drawn s))
      else s)"

text \<open>Fire spreads from burning neighbours to a tile of a flammable type.\<close>

definition igniteFromNeighborsStep :: "(nat \<Rightarrow> real) \<Rightarrow> bool \<Rightarrow> ServiceCoverage \<Rightarrow> int \<Rightarrow> int \<Rightarrow> int \<Rightarrow> TickStore \<Rightarrow> TickStore" where
  "igniteFromNeighborsStep rnd disasters services sz x y s =
     (let b = building (curTile s x y)
      in if disasters \<and> \<not> onFire b \<and> btype b \<noteq> ''grass'' \<and> btype b \<noteq> ''water'' \<and> btype b \<noteq> ''road''
            \<and> btype b \<noteq> ''tree'' \<and> btype b \<noteq> ''empty'' \<and> btype b \<noteq> ''bridge'' \<and> btype b \<noteq> ''rail''
         then (let adjacentFireCount =
                     sum_list (map (\<lambda>(dx, dy).
                        (let nx = x + dx; ny = y + dy
                         in if nx \<ge> 0 \<and> nx < sz \<and> ny \<ge> 0 \<and> ny < sz
                               \<and> onFire (building (curTile s nx ny)) then (1::int) else 0))
                       [(- 1, 0), (1, 0), (0, - 1), (0, 1)])
               in if adjacentFireCount > 0
                  then (let fireCoverage = get2 (fireCov services) x y;
                            coverageReduction = fireCoverage / 100;
                            baseSpreadChance = 0.005 * real_of_int adjacentFireCount;
                            spreadChance = baseSpreadChance * (1 - coverageReduction * 0.95)
                        in if draw rnd s < spreadChance
                           then mutateNew (\<lambda>g. modBuilding g x y (\<lambda>b. b\<lparr>onFire := True, fireProgress := 0\<rparr>))
                                  (drawn s)
                           else drawn s)
                  else s)
         else s)"

text \<open>A tile may catch fire by itself; this test names five types.\<close>

definition selfIgniteStep :: "(nat \<Rightarrow> real) \<Rightarrow> bool \<Rightarrow> int \<Rightarrow> int \<Rightarrow> TickStore \<Rightarrow> TickStore" where
  "selfIgniteStep rnd disasters x y s =
     (let b = building (curTile s x y)
      in if disasters \<and> \<not> onFire b \<and> btype b \<noteq> ''grass'' \<and> btype b \<noteq> ''water'' \<and> btype b \<noteq> ''road''
            \<and> btype b \<noteq> ''tree'' \<and> btype b \<noteq> ''empty''
         then (if draw rnd s < 0.00003
               then mutateNew (\<lambda>g. modBuilding g x y (\<lambda>b. b\<lparr>onFire := True, fireProgress := 0\<rparr>)) (drawn s)
               else drawn s)
         else s)"

text \<open>The body of the double loop for the tile at (x, y).\<close>

definition tileStep :: "Tables \<Rightarrow> (nat \<Rightarrow> real) \<Rightarrow> Demand option \<Rightarrow> bool \<Rightarrow> ServiceCoverage \<Rightarrow> int \<Rightarrow> int \<Rightarrow> int \<Rightarrow> TickStore \<Rightarrow> TickStore" where
  "tileStep T rnd dem disasters services sz y x s =
     (let originalTile = getTile (viewInput s) x y;
          newPowered = get2 (powerCov services) x y;
          newWatered = get2 (waterCov services) x y
      in if skipsTile T originalTile newPowered newWatered then s
         else
           (selfIgniteStep rnd disasters x y
            (igniteFromNeighborsStep rnd disasters services sz x y
            (burnStep rnd disasters services x y
            (decayStep x y
            (spreadStep rnd sz x y
            (scrubStep x y
            (emitStep T x y
            (developStep T rnd dem services sz x y newPowered newWatered
            (orphanStep sz x y newPowered newWatered
            (constructStep rnd x y
            (mutateNew (\<lambda>g. modBuilding g x y (\<lambda>b. b\<lparr>powered := newPowered, watered := newWatered\<rparr>))
            (copyRow y s)))))))))))))"

text \<open>
  The grid pass of \<open>simulateTick\<close>: the coverage of the grid as it is on entry, then every
  tile in row-major order. The result is the store after the pass; \<open>viewNew\<close> of it is
  the grid of the returned state and \<open>viewInput\<close> of it is what the caller's grid holds
  afterwards. What \<open>simulateTick\<close> computes after the pass (budget, statistics, clock,
  advisor messages, history) reads \<open>newGrid\<close> and writes none of its tiles; it is not
  modelled.
\<close>

definition simulateTick :: "Tables \<Rightarrow> (nat \<Rightarrow> real) \<Rightarrow> Visited \<Rightarrow> nat \<Rightarrow> 'a GameState_scheme \<Rightarrow> TickStore" where
  "simulateTick T rnd visited0 k state =
     (let sz = gridSize state;
          services = calculateServiceCoverage (grid state) sz
      in forBox 0 (sz - 1) 0 (sz - 1)
           (tileStep T rnd (demand state) (disastersEnabled state) services sz)
           (initStore (grid state) visited0 k))"

subsection \<open>Example states for one tick\<close>

text \<open>A 2x2 map with a finished water tower at (0,0) and a polluted tile at (0,1).\<close>

definition scrubState :: GameState where
  "scrubState =
     \<lparr> grid = updTile (updTile (grassGrid 2) 0 0
                 (\<lambda>t. t\<lparr>building := (createBuilding ''water_tower'')\<lparr>constructionProgress := Some 100\<rparr>\<rparr>))
                 0 1 (\<lambda>t. t\<lparr>pollution := 10\<rparr>),
       gridSize = 2, demand = None, disastersEnabled = False \<rparr>"

text \<open>A 1x1 map on which the rail tool has been used, with disasters enabled.\<close>

definition railState :: GameState where
  "railState =
     placeBuilding exampleTables
       \<lparr> grid = grassGrid 1, gridSize = 1, demand = None, disastersEnabled = True \<rparr>
       0 0 (Some ''rail'') None"

section \<open>A sequence of ticks\<close>

text \<open>
  The state \<open>simulateTick\<close> returns has the new grid and the same \<open>gridSize\<close> and
  \<open>disastersEnabled\<close>; its statistics, among them the demand read by the next tick,
  are recomputed by code that is not modelled, so the demand of the returned state is an
  argument here, as are the draws of the tick and the contents of the visited buffer on
  entry. \<open>runTicks\<close> is a sequence of calls, each on the state the previous one returned.
\<close>

definition nextState :: "Tables \<Rightarrow> (nat \<Rightarrow> real) \<Rightarrow> Visited \<Rightarrow> Demand option \<Rightarrow> 'a GameState_scheme \<Rightarrow> 'a GameState_scheme" where
  "nextState T rnd visited0 dem' state =
     state\<lparr>grid := viewNew (simulateTick T rnd visited0 0 state), demand := dem'\<rparr>"

fun runTicks :: "Tables \<Rightarrow> ((nat \<Rightarrow> real) \<times> Visited \<times> Demand option) list \<Rightarrow> 'a GameState_scheme \<Rightarrow> 'a GameState_scheme" where
  "runTicks T [] state = state"
| "runTicks T ((rnd, visited0, dem') # envs) state = runTicks T envs (nextState T rnd visited0 dem' state)"

subsection \<open>Example states for a sequence of ticks\<close>

text \<open>A 2x2 map on which a water tower has just been placed.\<close>

definition towerState :: GameState where
  "towerState =
     placeBuilding exampleTables
       \<lparr> grid = grassGrid 2, gridSize = 2, demand = None, disastersEnabled = False \<rparr>
       0 0 (Some ''water_tower'') None"

text \<open>
  A 3x3 map with a finished power plant (anchor at (0,0), three filler tiles), a finished
  water tower at (2,0) and, at (2,1), a finished small house of level 1 that is 13 ticks
  old, powered and watered, on a residential tile.
\<close>

definition upgradeState :: GameState where
  "upgradeState =
     \<lparr> grid =
         updTile (updTile (updTile
           (applyBuildingFootprint exampleTables (grassGrid 3) 0 0 ''power_plant'' zone_none 1 None)
           0 0 (\<lambda>t. t\<lparr>building := (building t)\<lparr>constructionProgress := Some 100\<rparr>\<rparr>))
           2 0 (\<lambda>t. t\<lparr>building := (createBuilding ''water_tower'')\<lparr>constructionProgress := Some 100\<rparr>\<rparr>))
           2 1 (\<lambda>t. t\<lparr>zone := residential,
                         building := (createBuilding ''house_small'')
                            \<lparr>constructionProgress := Some 100, age := 13, powered := True, watered := True\<rparr>\<rparr>),
       gridSize = 3, demand = None, disastersEnabled = False \<rparr>"

section \<open>Notions for the claims about a tick\<close>

text \<open>
  The row store is well formed for a map of size \<open>n\<close>: both grids have \<open>n\<close> rows, the
  rows of \<open>newGrid\<close> are distinct and allocated, a row not yet in \<open>modifiedRows\<close> is
  the input's row, and \<open>newGrid\<close> is square.
\<close>

definition storeInv :: "int \<Rightarrow> TickStore \<Rightarrow> bool" where
  "storeInv n s =
     (length (newRows s) = nat n \<and> length (inputRows s) = nat n \<and> distinct (newRows s)
      \<and> (\<forall>a\<in>set (newRows s). a < nextAddr s) \<and> (\<forall>a\<in>set (inputRows s). a < nextAddr s)
      \<and> (\<forall>y. 0 \<le> y \<and> y < n \<and> y \<notin> modifiedRows s \<longrightarrow> newRows s ! nat y = inputRows s ! nat y)
      \<and> wf_grid (viewNew s) n)"

text \<open>
  \<open>keeps exempt t t'\<close>: if the building of tile \<open>t\<close> has a construction progress \<open>p\<close> of at
  most 100, the building of \<open>t'\<close> has a progress of at most 100 that, unless the tile is
  exempt, is not below \<open>p\<close>. \<open>gkeeps n X\<close> lifts this to square grids, the tiles at the
  coordinates in \<open>X\<close> being the exempt ones, and \<open>sok\<close> to stores, where the exempt tiles
  are those of the footprint log.
\<close>

definition keeps :: "bool \<Rightarrow> Tile \<Rightarrow> Tile \<Rightarrow> bool" where
  "keeps exempt t t' =
     (\<forall>p. constructionProgress (building t) = Some p \<and> p \<le> 100 \<longrightarrow>
          (\<exists>p'. constructionProgress (building t') = Some p' \<and> p' \<le> 100 \<and> (exempt \<or> p \<le> p')))"

definition gkeeps :: "int \<Rightarrow> (int \<times> int) set \<Rightarrow> Grid \<Rightarrow> Grid \<Rightarrow> bool" where
  "gkeeps n X g g' =
     (wf_grid g' n \<and>
      (\<forall>x y. 0 \<le> x \<and> x < n \<and> 0 \<le> y \<and> y < n \<longrightarrow> keeps ((x, y) \<in> X) (getTile g x y) (getTile g' x y)))"

definition sok :: "int \<Rightarrow> TickStore \<Rightarrow> TickStore \<Rightarrow> bool" where
  "sok n s s' =
     (storeInv n s' \<and> set (footprintLog s) \<subseteq> set (footprintLog s')
      \<and> gkeeps n (set (footprintLog s')) (viewNew s) (viewNew s'))"

section \<open>Notions for the road access claim\<close>

text \<open>
  What the claim calls a path to a road: at least two tiles, all on the map, each next to
  the one before it, the tiles strictly between the first and the last in the zone of the
  first and not water, and the last a road or a bridge. Its number of steps is its length
  minus one.
\<close>

fun stepsAdjacent :: "(int \<times> int) list \<Rightarrow> bool" where
  "stepsAdjacent ((x1, y1) # (x2, y2) # rest) =
     (\<bar>x1 - x2\<bar> + \<bar>y1 - y2\<bar> = 1 \<and> stepsAdjacent ((x2, y2) # rest))"
| "stepsAdjacent _ = True"

definition roadPath :: "Grid \<Rightarrow> int \<Rightarrow> (int \<times> int) list \<Rightarrow> bool" where
  "roadPath g sz path =
     (2 \<le> length path \<and> stepsAdjacent path
      \<and> list_all (\<lambda>(a, b). inBounds sz a b) path
      \<and> list_all (\<lambda>(a, b). zone (getTile g a b) = zone (getTile g (fst (hd path)) (snd (hd path)))
                             \<and> btype (building (getTile g a b)) \<noteq> ''water'') (butlast (tl path))
      \<and> (btype (building (getTile g (fst (last path)) (snd (last path)))) = ''road''
          \<or> btype (building (getTile g (fst (last path)) (snd (last path)))) = ''bridge''))"

text \<open>
  A map of size \<open>n\<close>, all grass, whose last three rows are zoned residential, with one
  road tile at (rx, n - 1).
\<close>

definition bandMap :: "int \<Rightarrow> int \<Rightarrow> Grid" where
  "bandMap n rx =
     map (\<lambda>y. map (\<lambda>x. if y < n - 3 then createTile x y ''grass''
                        else if y = n - 1 \<and> x = rx then createTile x y ''road''
                        else (createTile x y ''grass'')\<lparr>zone := residential\<rparr>) [0..n - 1]) [0..n - 1]"

section \<open>Facts about grids\<close>

lemma wf_grid_nth:
  "wf_grid g n \<Longrightarrow> 0 \<le> y \<Longrightarrow> y < n \<Longrightarrow> length (g ! nat y) = nat n"
  by (simp add: wf_grid_def list_all_length)

lemma coords_stored_nth:
  assumes "coords_stored g" "y < length g" "x < length (g ! y)"
  shows "tileX (g ! y ! x) = int x \<and> tileY (g ! y ! x) = int y"
proof -
  from assms(1,2) have "list_all (\<lambda>(x, t). tileX t = int x \<and> tileY t = int y)
      (zip [0..<length (g ! y)] (g ! y))"
    by (auto simp: coords_stored_def list_all_length)
  with assms(3) show ?thesis
    by (auto simp: list_all_length)
qed

lemma wf_grassGrid: "0 \<le> n \<Longrightarrow> wf_grid (grassGrid n) n"
  by (simp add: wf_grid_def grassGrid_def list_all_iff)

lemma coords_grassGrid: "coords_stored (grassGrid n)"
  by (simp add: coords_stored_def grassGrid_def list_all_length createTile_def)

lemma expand_shrink_restores:
  assumes wf: "wf_grid g n" and cs: "coords_stored g" and n20: "20 \<le> n" and k0: "0 \<le> k"
  shows "expandThenShrink g n k = Some (g, n)"
proof -
  let ?e = "fst (expandGrid g n k)"
  have len: "length g = nat n" and rows: "\<And>y. y < nat n \<Longrightarrow> length (g ! y) = nat n"
    using wf by (auto simp: wf_grid_def list_all_length)
  have cell: "getTile ?e (int x + k) (int y + k) = (g ! y ! x)\<lparr>tileX := int x + k, tileY := int y + k\<rparr>"
    if "x < nat n" "y < nat n" for x y
  proof -
    from that have "int x < n" "int y < n" by linarith+
    then show ?thesis
      using k0 by (simp add: expandGrid_def getTile_def Let_def nat_add_distrib)
  qed
  have orig: "(g ! y ! x)\<lparr>tileX := int x, tileY := int y\<rparr> = g ! y ! x"
    if "x < nat n" "y < nat n" for x y
    using coords_stored_nth[OF cs, of y x] that len rows by simp
  have "map (\<lambda>y. map (\<lambda>x. (getTile ?e (x + k) (y + k))\<lparr>tileX := x, tileY := y\<rparr>)
          [0..n - 1]) [0..n - 1] = g"
  proof (rule nth_equalityI)
    show "length (map (\<lambda>y. map (\<lambda>x. (getTile ?e (x + k) (y + k))\<lparr>tileX := x, tileY := y\<rparr>)
          [0..n - 1]) [0..n - 1]) = length g"
      using len n20 by simp
  next
    fix y assume "y < length (map (\<lambda>y. map (\<lambda>x. (getTile ?e (x + k) (y + k))\<lparr>tileX := x, tileY := y\<rparr>)
          [0..n - 1]) [0..n - 1])"
    then have y: "y < nat n" by simp
    show "map (\<lambda>y. map (\<lambda>x. (getTile ?e (x + k) (y + k))\<lparr>tileX := x, tileY := y\<rparr>)
          [0..n - 1]) [0..n - 1] ! y = g ! y"
    proof (rule nth_equalityI)
      show "length (map (\<lambda>y. map (\<lambda>x. (getTile ?e (x + k) (y + k))\<lparr>tileX := x, tileY := y\<rparr>)
          [0..n - 1]) [0..n - 1] ! y) = length (g ! y)"
        using y rows by simp
    next
      fix x assume "x < length (map (\<lambda>y. map (\<lambda>x. (getTile ?e (x + k) (y + k))\<lparr>tileX := x, tileY := y\<rparr>)
          [0..n - 1]) [0..n - 1] ! y)"
      then have x: "x < nat n" using y by simp
      show "map (\<lambda>y. map (\<lambda>x. (getTile ?e (x + k) (y + k))\<lparr>tileX := x, tileY := y\<rparr>)
          [0..n - 1]) [0..n - 1] ! y ! x = g ! y ! x"
        using x y cell[OF x y] orig[OF x y] by simp
    qed
  qed
  then show ?thesis
    using n20 by (simp add: expandThenShrink_def shrinkGrid_def Let_def expandGrid_def split: prod.splits)
qed

lemma shrink_small_refused: "n < 20 \<Longrightarrow> expandThenShrink g n k = None"
  by (simp add: expandThenShrink_def expandGrid_def shrinkGrid_def Let_def)

text \<open>
  C8 (amended). Expanding a map of side \<open>n\<close> by \<open>k\<close> and shrinking the result by the same
  \<open>k\<close> gives \<open>null\<close> whenever \<open>n < 20\<close>, because \<open>shrinkGrid\<close> refuses a new side below
  20. For a square map of side \<open>n \<ge> 20\<close> whose tiles store their own coordinates, and
  \<open>k \<ge> 0\<close>, it gives back a map of side \<open>n\<close> that equals the original at every
  coordinate, the stored \<open>x\<close> and \<open>y\<close> included.
\<close>

theorem C8_expand_then_shrink:
  "(n < 20 \<longrightarrow> expandThenShrink g n k = None)
   \<and> (wf_grid g n \<and> coords_stored g \<and> 20 \<le> n \<and> 0 \<le> k \<longrightarrow> expandThenShrink g n k = Some (g, n))"
  using shrink_small_refused[of n g k] expand_shrink_restores[of g n k] by blast

theorem C8_expand_then_shrink_witness:
  "wf_grid (grassGrid 20) 20 \<and> coords_stored (grassGrid 20) \<and> (20::int) \<le> 20 \<and> (0::int) \<le> 15
   \<and> expandThenShrink (grassGrid 20) 20 15 = Some (grassGrid 20, 20)"
  using C8_expand_then_shrink[of 20 "grassGrid 20" 15] wf_grassGrid[of 20] coords_grassGrid[of 20]
  by simp

text \<open>
  The claim as stated fails for a small map: a 1x1 map expanded by 1 and shrunk by 1 would
  have side 1, and \<open>shrinkGrid\<close> returns \<open>null\<close>.
\<close>

theorem C8_counterexample:
  "expandThenShrink (grassGrid 1) 1 1 = None"
  by (simp add: expandThenShrink_def expandGrid_def shrinkGrid_def Let_def)

section \<open>Service coverage: the box loops\<close>

lemma wf_set2: "wf_grid a n \<Longrightarrow> wf_grid (set2 a x y v) n"
  by (cases "nat y < length a") (auto simp: wf_grid_def set2_def list_all_length nth_list_update)

lemma get2_set2:
  "wf_grid a n \<Longrightarrow> 0 \<le> x \<Longrightarrow> x < n \<Longrightarrow> 0 \<le> y \<Longrightarrow> y < n \<Longrightarrow> 0 \<le> i \<Longrightarrow> 0 \<le> j \<Longrightarrow>
   get2 (set2 a x y v) i j = (if i = x \<and> j = y then v else get2 a i j)"
  by (auto simp: wf_grid_def set2_def get2_def list_all_length nth_list_update)

lemma wf_cellUpd: "wf_grid a n \<Longrightarrow> wf_grid (cellUpd P h ny nx a) n"
  by (simp add: cellUpd_def wf_set2)

lemma fold_cellUpd_inner:
  assumes "wf_grid a n" "0 \<le> ny" "ny < n" "\<forall>x\<in>set xs. 0 \<le> x \<and> x < n" "distinct xs"
  shows "wf_grid (fold (cellUpd P h ny) xs a) n \<and>
     (\<forall>i j. 0 \<le> i \<longrightarrow> 0 \<le> j \<longrightarrow>
        get2 (fold (cellUpd P h ny) xs a) i j =
          (if j = ny \<and> i \<in> set xs \<and> P ny i then h ny i (get2 a i j) else get2 a i j))"
  using assms
proof (induction xs arbitrary: a)
  case Nil
  then show ?case by simp
next
  case (Cons x xs)
  let ?a = "cellUpd P h ny x a"
  have wf': "wf_grid ?a n" using Cons.prems(1) by (rule wf_cellUpd)
  have x: "0 \<le> x" "x < n" "x \<notin> set xs" using Cons.prems by auto
  have step: "get2 ?a i j = (if j = ny \<and> i = x \<and> P ny x then h ny x (get2 a i j) else get2 a i j)"
    if "0 \<le> i" "0 \<le> j" for i j
    using that x Cons.prems(1-3) by (simp add: cellUpd_def get2_set2)
  from Cons.IH[OF wf' Cons.prems(2,3)] Cons.prems(4,5)
  have IH: "wf_grid (fold (cellUpd P h ny) xs ?a) n"
    "\<And>i j. 0 \<le> i \<Longrightarrow> 0 \<le> j \<Longrightarrow> get2 (fold (cellUpd P h ny) xs ?a) i j =
          (if j = ny \<and> i \<in> set xs \<and> P ny i then h ny i (get2 ?a i j) else get2 ?a i j)"
    by auto
  show ?case
  proof (intro conjI allI impI)
    show "wf_grid (fold (cellUpd P h ny) (x # xs) a) n" using IH(1) by simp
  next
    fix i j :: int assume ij: "0 \<le> i" "0 \<le> j"
    show "get2 (fold (cellUpd P h ny) (x # xs) a) i j =
          (if j = ny \<and> i \<in> set (x # xs) \<and> P ny i then h ny i (get2 a i j) else get2 a i j)"
      using IH(2)[OF ij] step[OF ij] x(3) by auto
  qed
qed

lemma fold_cellUpd_outer:
  assumes "wf_grid a n" "\<forall>y\<in>set ys. 0 \<le> y \<and> y < n" "distinct ys"
          "\<forall>x\<in>set xs. 0 \<le> x \<and> x < n" "distinct xs"
  shows "wf_grid (fold (\<lambda>ny. fold (cellUpd P h ny) xs) ys a) n \<and>
     (\<forall>i j. 0 \<le> i \<longrightarrow> 0 \<le> j \<longrightarrow>
        get2 (fold (\<lambda>ny. fold (cellUpd P h ny) xs) ys a) i j =
          (if j \<in> set ys \<and> i \<in> set xs \<and> P j i then h j i (get2 a i j) else get2 a i j))"
  using assms
proof (induction ys arbitrary: a)
  case Nil
  then show ?case by simp
next
  case (Cons y ys)
  let ?a = "fold (cellUpd P h y) xs a"
  have y: "0 \<le> y" "y < n" "y \<notin> set ys" using Cons.prems by auto
  from fold_cellUpd_inner[OF Cons.prems(1) y(1,2) Cons.prems(4,5), of P h]
  have inner: "wf_grid ?a n"
    "\<And>i j. 0 \<le> i \<Longrightarrow> 0 \<le> j \<Longrightarrow> get2 ?a i j =
       (if j = y \<and> i \<in> set xs \<and> P y i then h y i (get2 a i j) else get2 a i j)"
    by auto
  from Cons.IH[OF inner(1)] Cons.prems
  have IH: "wf_grid (fold (\<lambda>ny. fold (cellUpd P h ny) xs) ys ?a) n"
    "\<And>i j. 0 \<le> i \<Longrightarrow> 0 \<le> j \<Longrightarrow> get2 (fold (\<lambda>ny. fold (cellUpd P h ny) xs) ys ?a) i j =
          (if j \<in> set ys \<and> i \<in> set xs \<and> P j i then h j i (get2 ?a i j) else get2 ?a i j)"
    by auto
  show ?case
  proof (intro conjI allI impI)
    show "wf_grid (fold (\<lambda>ny. fold (cellUpd P h ny) xs) (y # ys) a) n" using IH(1) by simp
  next
    fix i j :: int assume ij: "0 \<le> i" "0 \<le> j"
    show "get2 (fold (\<lambda>ny. fold (cellUpd P h ny) xs) (y # ys) a) i j =
          (if j \<in> set (y # ys) \<and> i \<in> set xs \<and> P j i then h j i (get2 a i j) else get2 a i j)"
      using IH(2)[OF ij] inner(2)[OF ij] y(3) by auto
  qed
qed

lemma forBox_cellUpd:
  assumes "wf_grid a n" "0 \<le> minY" "maxY < n" "0 \<le> minX" "maxX < n"
  shows "wf_grid (forBox minY maxY minX maxX (cellUpd P h) a) n"
    and "0 \<le> i \<Longrightarrow> 0 \<le> j \<Longrightarrow>
        get2 (forBox minY maxY minX maxX (cellUpd P h) a) i j =
          (if minY \<le> j \<and> j \<le> maxY \<and> minX \<le> i \<and> i \<le> maxX \<and> P j i
           then h j i (get2 a i j) else get2 a i j)"
proof -
  have *: "\<forall>y\<in>set [minY..maxY]. 0 \<le> y \<and> y < n" "\<forall>x\<in>set [minX..maxX]. 0 \<le> x \<and> x < n"
    using assms by auto
  from fold_cellUpd_outer[OF assms(1) *(1) _ *(2), of P h]
  show "wf_grid (forBox minY maxY minX maxX (cellUpd P h) a) n"
    and "0 \<le> i \<Longrightarrow> 0 \<le> j \<Longrightarrow>
        get2 (forBox minY maxY minX maxX (cellUpd P h) a) i j =
          (if minY \<le> j \<and> j \<le> maxY \<and> minX \<le> i \<and> i \<le> maxX \<and> P j i
           then h j i (get2 a i j) else get2 a i j)"
    by (auto simp: forBox_def)
qed

lemma serviceRange_eq: "serviceRange base l = (base * (int l + 4)) div 5"
proof -
  have "real_of_int base * (1 + (real l - 1) * 0.2) = real_of_int (base * (int l + 4)) / real_of_int 5"
    by (simp add: field_simps)
  then show ?thesis
    unfolding serviceRange_def SERVICE_RANGE_INCREASE_PER_LEVEL_def Let_def
    by (simp only: floor_divide_of_int_eq)
qed

lemma serviceRange_nonneg: "0 \<le> base \<Longrightarrow> 0 \<le> serviceRange base l"
  by (simp add: serviceRange_eq pos_imp_zdiv_nonneg_iff)

lemma serviceRange_mono: "0 \<le> base \<Longrightarrow> l \<le> l' \<Longrightarrow> serviceRange base l \<le> serviceRange base l'"
  by (simp add: serviceRange_eq zdiv_mono1 mult_left_mono)

lemma serviceRange_pos: "2 \<le> base \<Longrightarrow> 0 < serviceRange base l"
proof -
  assume "2 \<le> base"
  then have "2 * 4 \<le> base * (int l + 4)"
    by (intro mult_mono) auto
  then have "5 \<le> base * (int l + 4)" by simp
  then show ?thesis by (simp add: serviceRange_eq pos_imp_zdiv_pos_iff)
qed

lemma circle_in_box:
  fixes dx dy r :: int
  assumes "dx * dx + dy * dy \<le> r * r" "0 \<le> r"
  shows "\<bar>dx\<bar> \<le> r \<and> \<bar>dy\<bar> \<le> r"
proof -
  have "dx\<^sup>2 \<le> r\<^sup>2" "dy\<^sup>2 \<le> r\<^sup>2"
    using assms(1) by (simp_all add: power2_eq_square) (smt (verit) zero_le_square)+
  then show ?thesis
    using assms(2) by (metis abs_le_square_iff abs_of_nonneg)
qed

lemma SERVICE_CONFIG_cases:
  assumes "map_of SERVICE_CONFIG t = Some (base, st)"
  shows "11 \<le> base \<and> (st = None \<longleftrightarrow> t = ''power_plant'' \<or> t = ''water_tower'')"
  using assms by (auto simp: SERVICE_CONFIG_def split: if_splits)

lemma applyServiceBuilding_alt:
  "applyServiceBuilding n (x, y, t, l) s =
     (case map_of SERVICE_CONFIG t of
        None \<Rightarrow> s
      | Some (base, st) \<Rightarrow>
         (let r = serviceRange base l;
              minY = max 0 (y - r); maxY = min (n - 1) (y + r);
              minX = max 0 (x - r); maxX = min (n - 1) (x + r)
          in if t = ''power_plant'' then
               s\<lparr>powerCov := forBox minY maxY minX maxX (cellUpd (inCircle x y r) (\<lambda>_ _ _. True)) (powerCov s)\<rparr>
             else if t = ''water_tower'' then
               s\<lparr>waterCov := forBox minY maxY minX maxX (cellUpd (inCircle x y r) (\<lambda>_ _ _. True)) (waterCov s)\<rparr>
             else (case st of None \<Rightarrow> s
                   | Some f \<Rightarrow> setServiceField f
                       (forBox minY maxY minX maxX
                          (cellUpd (inCircle x y r) (\<lambda>ny nx v. min 100 (v + contribution x y r nx ny)))
                          (getServiceField f s)) s)))"
  unfolding applyServiceBuilding_def cellUpd_def inCircle_def contribution_def Let_def
  by (simp split: option.splits)

lemma box_cell:
  assumes r: "0 \<le> r" and b: "0 \<le> x" "x < n" "0 \<le> y" "y < n" and c: "0 \<le> i" "i < n" "0 \<le> j" "j < n"
  shows "(max 0 (y - r) \<le> j \<and> j \<le> min (n - 1) (y + r) \<and> max 0 (x - r) \<le> i \<and> i \<le> min (n - 1) (x + r)
          \<and> inCircle x y r j i) = inCircle x y r j i"
proof (cases "inCircle x y r j i")
  case True
  then have "\<bar>i - x\<bar> \<le> r \<and> \<bar>j - y\<bar> \<le> r"
    unfolding inCircle_def using circle_in_box[OF _ r] by blast
  with True c show ?thesis by auto
qed simp

lemma forBox_circle:
  assumes "wf_grid a n" "0 \<le> r" "0 \<le> x" "x < n" "0 \<le> y" "y < n"
  shows "wf_grid (forBox (max 0 (y - r)) (min (n - 1) (y + r)) (max 0 (x - r)) (min (n - 1) (x + r))
            (cellUpd (inCircle x y r) h) a) n"
    and "0 \<le> i \<Longrightarrow> i < n \<Longrightarrow> 0 \<le> j \<Longrightarrow> j < n \<Longrightarrow>
         get2 (forBox (max 0 (y - r)) (min (n - 1) (y + r)) (max 0 (x - r)) (min (n - 1) (x + r))
            (cellUpd (inCircle x y r) h) a) i j =
         (if inCircle x y r j i then h j i (get2 a i j) else get2 a i j)"
proof -
  have bx: "0 \<le> max 0 (y - r)" "min (n - 1) (y + r) < n" "0 \<le> max 0 (x - r)" "min (n - 1) (x + r) < n"
    by auto
  show "wf_grid (forBox (max 0 (y - r)) (min (n - 1) (y + r)) (max 0 (x - r)) (min (n - 1) (x + r))
            (cellUpd (inCircle x y r) h) a) n"
    by (rule forBox_cellUpd(1)[OF assms(1) bx])
  assume c: "0 \<le> i" "i < n" "0 \<le> j" "j < n"
  show "get2 (forBox (max 0 (y - r)) (min (n - 1) (y + r)) (max 0 (x - r)) (min (n - 1) (x + r))
            (cellUpd (inCircle x y r) h) a) i j =
         (if inCircle x y r j i then h j i (get2 a i j) else get2 a i j)"
    unfolding forBox_cellUpd(2)[OF assms(1) bx c(1,3)]
    using box_cell[OF assms(2-6) c] by auto
qed

lemma inFlooredRange_inCircle: "inFlooredRange base l x y i j = inCircle x y (serviceRange base l) j i"
  by (simp add: inFlooredRange_def inCircle_def)

lemma apply_wfCov:
  assumes "wfCov s n" "0 \<le> x" "x < n" "0 \<le> y" "y < n"
  shows "wfCov (applyServiceBuilding n (x, y, t, l) s) n"
proof (cases "map_of SERVICE_CONFIG t")
  case None
  then show ?thesis using assms(1) by (simp add: applyServiceBuilding_alt)
next
  case (Some p)
  obtain base st where p: "p = (base, st)" by (cases p)
  from SERVICE_CONFIG_cases Some p have base: "11 \<le> base" by blast
  then have r: "0 \<le> serviceRange base l" by (simp add: serviceRange_nonneg)
  note fb = forBox_circle(1)[OF _ r assms(2-5)]
  show ?thesis
    using Some p assms(1)
    by (cases st; cases "the st")
       (auto simp: applyServiceBuilding_alt Let_def wfCov_def setServiceField_def getServiceField_def
             intro!: fb)
qed

lemma apply_power:
  assumes "wfCov s n" "0 \<le> x" "x < n" "0 \<le> y" "y < n" "0 \<le> i" "i < n" "0 \<le> j" "j < n"
  shows "get2 (powerCov (applyServiceBuilding n (x, y, t, l) s)) i j =
           (get2 (powerCov s) i j \<or> (t = ''power_plant'' \<and> inFlooredRange 15 l x y i j))"
proof (cases "t = ''power_plant''")
  case True
  have r: "0 \<le> serviceRange 15 l" by (simp add: serviceRange_nonneg)
  have wf: "wf_grid (powerCov s) n" using assms(1) by (simp add: wfCov_def)
  show ?thesis
    using True forBox_circle(2)[OF wf r assms(2-9), of "\<lambda>_ _ _. True"]
    by (auto simp: applyServiceBuilding_alt SERVICE_CONFIG_def Let_def inFlooredRange_inCircle)
next
  case False
  then show ?thesis
    by (auto simp: applyServiceBuilding_alt Let_def setServiceField_def split: option.splits ServiceType.splits)
qed

lemma apply_water:
  assumes "wfCov s n" "0 \<le> x" "x < n" "0 \<le> y" "y < n" "0 \<le> i" "i < n" "0 \<le> j" "j < n"
  shows "get2 (waterCov (applyServiceBuilding n (x, y, t, l) s)) i j =
           (get2 (waterCov s) i j \<or> (t = ''water_tower'' \<and> inFlooredRange 12 l x y i j))"
proof (cases "t = ''water_tower''")
  case True
  have r: "0 \<le> serviceRange 12 l" by (simp add: serviceRange_nonneg)
  have wf: "wf_grid (waterCov s) n" using assms(1) by (simp add: wfCov_def)
  show ?thesis
    using True forBox_circle(2)[OF wf r assms(2-9), of "\<lambda>_ _ _. True"]
    by (auto simp: applyServiceBuilding_alt SERVICE_CONFIG_def Let_def inFlooredRange_inCircle)
next
  case False
  then show ?thesis
    by (auto simp: applyServiceBuilding_alt Let_def setServiceField_def split: option.splits ServiceType.splits)
qed

lemma collect_set:
  "(x, y, t, l) \<in> set (collectServiceBuildings g n) \<longleftrightarrow>
     0 \<le> x \<and> x < n \<and> 0 \<le> y \<and> y < n \<and> t \<in> set SERVICE_BUILDING_TYPES
     \<and> activeService (getTile g x y) t \<and> l = level (building (getTile g x y))"
  unfolding collectServiceBuildings_def activeService_def Let_def
  by (auto split: if_splits)

lemma collect_inGrid: "b \<in> set (collectServiceBuildings g n) \<Longrightarrow> inGrid n b"
  by (cases b) (auto simp: inGrid_def collect_set)

lemma wfCov_create: "0 \<le> n \<Longrightarrow> wfCov (createServiceCoverage n) n"
  by (simp add: wfCov_def createServiceCoverage_def wf_grid_def list_all_iff)

lemma create_cells:
  assumes "0 \<le> i" "i < n" "0 \<le> j" "j < n"
  shows "get2 (powerCov (createServiceCoverage n)) i j = False"
    and "get2 (waterCov (createServiceCoverage n)) i j = False"
    and "get2 (getServiceField f (createServiceCoverage n)) i j = 0"
  using assms by (cases f; simp add: createServiceCoverage_def get2_def getServiceField_def)+

lemma fold_wfCov:
  "wfCov s n \<Longrightarrow> \<forall>b\<in>set bs. inGrid n b \<Longrightarrow> wfCov (fold (applyServiceBuilding n) bs s) n"
proof (induction bs arbitrary: s)
  case (Cons b bs)
  obtain x y t l where b: "b = (x, y, t, l)" by (cases b)
  with Cons.prems have "wfCov (applyServiceBuilding n b s) n"
    by (auto simp: inGrid_def intro: apply_wfCov)
  with Cons show ?case by simp
qed simp

lemma fold_power:
  assumes "wfCov s n" "\<forall>b\<in>set bs. inGrid n b" "0 \<le> i" "i < n" "0 \<le> j" "j < n"
  shows "get2 (powerCov (fold (applyServiceBuilding n) bs s)) i j =
     (get2 (powerCov s) i j \<or> (\<exists>(x, y, t, l)\<in>set bs. t = ''power_plant'' \<and> inFlooredRange 15 l x y i j))"
  using assms(1,2)
proof (induction bs arbitrary: s)
  case (Cons b bs)
  obtain x y t l where b: "b = (x, y, t, l)" by (cases b)
  with Cons.prems have xy: "0 \<le> x" "x < n" "0 \<le> y" "y < n" by (auto simp: inGrid_def)
  have wf': "wfCov (applyServiceBuilding n b s) n"
    unfolding b by (rule apply_wfCov[OF Cons.prems(1) xy])
  show ?case
    using Cons.IH[OF wf'] Cons.prems(2) apply_power[OF Cons.prems(1) xy assms(3-6), of t l]
    by (auto simp: b)
qed simp

lemma fold_water:
  assumes "wfCov s n" "\<forall>b\<in>set bs. inGrid n b" "0 \<le> i" "i < n" "0 \<le> j" "j < n"
  shows "get2 (waterCov (fold (applyServiceBuilding n) bs s)) i j =
     (get2 (waterCov s) i j \<or> (\<exists>(x, y, t, l)\<in>set bs. t = ''water_tower'' \<and> inFlooredRange 12 l x y i j))"
  using assms(1,2)
proof (induction bs arbitrary: s)
  case (Cons b bs)
  obtain x y t l where b: "b = (x, y, t, l)" by (cases b)
  with Cons.prems have xy: "0 \<le> x" "x < n" "0 \<le> y" "y < n" by (auto simp: inGrid_def)
  have wf': "wfCov (applyServiceBuilding n b s) n"
    unfolding b by (rule apply_wfCov[OF Cons.prems(1) xy])
  show ?case
    using Cons.IH[OF wf'] Cons.prems(2) apply_water[OF Cons.prems(1) xy assms(3-6), of t l]
    by (auto simp: b)
qed simp

lemma coveredBy_iff:
  "coveredBy R g n t base i j \<longleftrightarrow>
     (\<exists>x y. 0 \<le> x \<and> x < n \<and> 0 \<le> y \<and> y < n \<and> activeService (getTile g x y) t
        \<and> R base (level (building (getTile g x y))) x y i j)"
proof -
  have "(\<exists>y\<in>{0..n - 1}. \<exists>x\<in>{0..n - 1}. Q x y) = (\<exists>x y. 0 \<le> x \<and> x < n \<and> 0 \<le> y \<and> y < n \<and> Q x y)" for Q
    by (simp add: Bex_def) (metis zle_diff1_eq)
  then show ?thesis
    unfolding coveredBy_def list_ex_iff by simp
qed

lemma power_union_of_circles:
  assumes "0 \<le> i" "i < n" "0 \<le> j" "j < n"
  shows "get2 (powerCov (calculateServiceCoverage g n)) i j = coveredBy inFlooredRange g n ''power_plant'' 15 i j"
proof -
  have n: "0 \<le> n" using assms by simp
  have "get2 (powerCov (calculateServiceCoverage g n)) i j =
     (\<exists>(x, y, t, l)\<in>set (collectServiceBuildings g n). t = ''power_plant'' \<and> inFlooredRange 15 l x y i j)"
    unfolding calculateServiceCoverage_def
    using fold_power[OF wfCov_create[OF n] _ assms, of "collectServiceBuildings g n"] collect_inGrid[of _ g n]
    by (simp add: create_cells(1)[OF assms])
  also have "\<dots> = coveredBy inFlooredRange g n ''power_plant'' 15 i j"
    unfolding coveredBy_iff
    by (simp add: Bex_def split_paired_Ex collect_set SERVICE_BUILDING_TYPES_def)
  finally show ?thesis .
qed

lemma water_union_of_circles:
  assumes "0 \<le> i" "i < n" "0 \<le> j" "j < n"
  shows "get2 (waterCov (calculateServiceCoverage g n)) i j = coveredBy inFlooredRange g n ''water_tower'' 12 i j"
proof -
  have n: "0 \<le> n" using assms by simp
  have "get2 (waterCov (calculateServiceCoverage g n)) i j =
     (\<exists>(x, y, t, l)\<in>set (collectServiceBuildings g n). t = ''water_tower'' \<and> inFlooredRange 12 l x y i j)"
    unfolding calculateServiceCoverage_def
    using fold_water[OF wfCov_create[OF n] _ assms, of "collectServiceBuildings g n"] collect_inGrid[of _ g n]
    by (simp add: create_cells(2)[OF assms])
  also have "\<dots> = coveredBy inFlooredRange g n ''water_tower'' 12 i j"
    unfolding coveredBy_iff
    by (simp add: Bex_def split_paired_Ex collect_set SERVICE_BUILDING_TYPES_def)
  finally show ?thesis .
qed

lemma apply_field:
  assumes "wfCov s n" "0 \<le> x" "x < n" "0 \<le> y" "y < n" "0 \<le> i" "i < n" "0 \<le> j" "j < n"
  shows "get2 (getServiceField f (applyServiceBuilding n (x, y, t, l) s)) i j =
     (case map_of SERVICE_CONFIG t of
        Some (base, Some f') \<Rightarrow>
          if f' = f \<and> inFlooredRange base l x y i j
          then min 100 (get2 (getServiceField f s) i j + contribution x y (serviceRange base l) i j)
          else get2 (getServiceField f s) i j
      | _ \<Rightarrow> get2 (getServiceField f s) i j)"
proof (cases "map_of SERVICE_CONFIG t")
  case None
  then show ?thesis by (simp add: applyServiceBuilding_alt)
next
  case (Some p)
  obtain base st where p: "p = (base, st)" by (cases p)
  from SERVICE_CONFIG_cases Some p
  have base: "11 \<le> base" and st: "st = None \<longleftrightarrow> t = ''power_plant'' \<or> t = ''water_tower''" by blast+
  have r: "0 \<le> serviceRange base l" using base by (simp add: serviceRange_nonneg)
  show ?thesis
  proof (cases st)
    case None
    with st Some p show ?thesis
      by (cases f) (auto simp: applyServiceBuilding_alt Let_def getServiceField_def)
  next
    case (Some f')
    with st have t: "t \<noteq> ''power_plant''" "t \<noteq> ''water_tower''" by auto
    have wf: "wf_grid (getServiceField f' s) n"
      using assms(1) by (cases f') (simp_all add: wfCov_def getServiceField_def)
    note cell = forBox_circle(2)[OF wf r assms(2-9),
        of "\<lambda>ny nx v. min 100 (v + contribution x y (serviceRange base l) nx ny)"]
    have same: "getServiceField f (setServiceField f' a s) = (if f = f' then a else getServiceField f s)" for a
      by (cases f; cases f') (simp_all add: getServiceField_def setServiceField_def)
    show ?thesis
      using \<open>map_of SERVICE_CONFIG t = Some p\<close> p Some t cell
      by (auto simp: applyServiceBuilding_alt Let_def same inFlooredRange_inCircle)
  qed
qed

lemma contribution_mono:
  assumes "0 < r" "r \<le> r'"
  shows "contribution x y r i j \<le> contribution x y r' i j"
proof -
  let ?d = "sqrt (real_of_int ((i - x) * (i - x) + (j - y) * (j - y)))"
  have d: "0 \<le> ?d" by simp
  have "?d / real_of_int r' \<le> ?d / real_of_int r"
    using assms d by (intro divide_left_mono) auto
  then have "(1 - ?d / real_of_int r) * 100 \<le> (1 - ?d / real_of_int r') * 100"
    by (intro mult_right_mono diff_left_mono) simp_all
  then show ?thesis
    unfolding contribution_def by (rule max.mono[OF order_refl])
qed

lemma contribution_nonneg: "0 \<le> contribution x y r i j"
  by (simp add: contribution_def)

lemma inFlooredRange_mono:
  assumes "0 \<le> base" "l \<le> l'" "inFlooredRange base l x y i j"
  shows "inFlooredRange base l' x y i j"
proof -
  have "serviceRange base l * serviceRange base l \<le> serviceRange base l' * serviceRange base l'"
    using serviceRange_nonneg[OF assms(1), of l] serviceRange_mono[OF assms(1,2)]
    by (intro mult_mono) auto
  with assms(3) show ?thesis by (simp add: inFlooredRange_def)
qed

lemma apply_bounded100:
  assumes "wfCov s n" "bounded100 s n" "0 \<le> x" "x < n" "0 \<le> y" "y < n"
  shows "bounded100 (applyServiceBuilding n (x, y, t, l) s) n"
  unfolding bounded100_def
proof (intro allI impI)
  fix f i j assume c: "0 \<le> i \<and> i < n \<and> 0 \<le> j \<and> j < n"
  then have old: "get2 (getServiceField f s) i j \<le> 100" using assms(2) by (simp add: bounded100_def)
  from c have c': "0 \<le> i" "i < n" "0 \<le> j" "j < n" by auto
  show "get2 (getServiceField f (applyServiceBuilding n (x, y, t, l) s)) i j \<le> 100"
    unfolding apply_field[OF assms(1,3-6) c'] using old
    by (auto split: option.splits)
qed

lemma apply_mono:
  assumes wf: "wfCov s n" "wfCov s' n" and b: "bounded100 s n" and le: "covLe s s' n"
    and xy: "0 \<le> x" "x < n" "0 \<le> y" "y < n" and l: "l \<le> l'"
  shows "covLe (applyServiceBuilding n (x, y, t, l) s) (applyServiceBuilding n (x, y, t, l') s') n"
  unfolding covLe_def
proof (intro allI impI conjI)
  fix i j assume c: "0 \<le> i \<and> i < n \<and> 0 \<le> j \<and> j < n"
  then have c': "0 \<le> i" "i < n" "0 \<le> j" "j < n" by auto
  from le c have lef: "\<And>f. get2 (getServiceField f s) i j \<le> get2 (getServiceField f s') i j"
    and lep: "get2 (powerCov s) i j \<le> get2 (powerCov s') i j"
    and lew: "get2 (waterCov s) i j \<le> get2 (waterCov s') i j"
    by (auto simp: covLe_def)
  show "get2 (powerCov (applyServiceBuilding n (x, y, t, l) s)) i j
        \<le> get2 (powerCov (applyServiceBuilding n (x, y, t, l') s')) i j"
    unfolding apply_power[OF wf(1) xy c'] apply_power[OF wf(2) xy c']
    using lep inFlooredRange_mono[OF _ l, of 15 x y i j] by auto
  show "get2 (waterCov (applyServiceBuilding n (x, y, t, l) s)) i j
        \<le> get2 (waterCov (applyServiceBuilding n (x, y, t, l') s')) i j"
    unfolding apply_water[OF wf(1) xy c'] apply_water[OF wf(2) xy c']
    using lew inFlooredRange_mono[OF _ l, of 12 x y i j] by auto
  fix f
  have old: "get2 (getServiceField f s) i j \<le> 100" using b c by (simp add: bounded100_def)
  show "get2 (getServiceField f (applyServiceBuilding n (x, y, t, l) s)) i j
        \<le> get2 (getServiceField f (applyServiceBuilding n (x, y, t, l') s')) i j"
  proof (cases "map_of SERVICE_CONFIG t")
    case None
    then show ?thesis
      unfolding apply_field[OF wf(1) xy c'] apply_field[OF wf(2) xy c'] using lef by simp
  next
    case (Some p)
    obtain base st where p: "p = (base, st)" by (cases p)
    from SERVICE_CONFIG_cases Some p have base: "11 \<le> base" by blast
    then have r: "0 < serviceRange base l" by (simp add: serviceRange_pos)
    have rr: "serviceRange base l \<le> serviceRange base l'" using base l by (simp add: serviceRange_mono)
    note cm = contribution_mono[OF r rr, of x y i j]
    note cn = contribution_nonneg[of x y "serviceRange base l'" i j]
    note im = inFlooredRange_mono[OF _ l, of base x y i j]
    show ?thesis
      unfolding apply_field[OF wf(1) xy c'] apply_field[OF wf(2) xy c']
      using Some p lef[of f] old cm cn im base
      by (auto split: option.splits)
  qed
qed

lemma getTile_eq_get2: "getTile g x y = get2 g x y"
  by (simp add: getTile_def get2_def)

lemma updTile_eq_set2: "updTile g x y f = set2 g x y (f (get2 g x y))"
  by (simp add: updTile_def set2_def get2_def)

lemma wf_updTile: "wf_grid g n \<Longrightarrow> wf_grid (updTile g x y f) n"
  by (simp add: updTile_eq_set2 wf_set2)

lemma getTile_updTile:
  "wf_grid g n \<Longrightarrow> 0 \<le> x \<Longrightarrow> x < n \<Longrightarrow> 0 \<le> y \<Longrightarrow> y < n \<Longrightarrow> 0 \<le> i \<Longrightarrow> 0 \<le> j \<Longrightarrow>
   getTile (updTile g x y f) i j = (if i = x \<and> j = y then f (getTile g x y) else getTile g i j)"
  by (simp add: updTile_eq_set2 getTile_eq_get2 get2_set2)

lemma getTile_grassGrid:
  "0 \<le> x \<Longrightarrow> x < n \<Longrightarrow> 0 \<le> y \<Longrightarrow> y < n \<Longrightarrow> getTile (grassGrid n) x y = createTile x y ''grass''"
  by (simp add: getTile_def grassGrid_def)

lemma list_all2_concat_map:
  "(\<And>x. x \<in> set xs \<Longrightarrow> list_all2 R (f x) (f' x)) \<Longrightarrow> list_all2 R (concat (map f xs)) (concat (map f' xs))"
  by (induction xs) (auto intro: list_all2_appendI)

lemma collect_withLevel:
  assumes wf: "wf_grid g n" and b: "0 \<le> bx" "bx < n" "0 \<le> by" "by < n"
    and l: "level (building (getTile g bx by)) \<le> l'"
  shows "list_all2 sameButLevel (collectServiceBuildings g n) (collectServiceBuildings (withLevel g bx by l') n)"
  unfolding collectServiceBuildings_def
proof (intro list_all2_concat_map)
  fix x y assume "y \<in> set [0..n - 1]" "x \<in> set [0..n - 1]"
  then have xy: "0 \<le> x" "0 \<le> y" by auto
  have t: "getTile (withLevel g bx by l') x y =
      (if x = bx \<and> y = by then (getTile g bx by)\<lparr>building := (building (getTile g bx by))\<lparr>level := l'\<rparr>\<rparr>
       else getTile g x y)"
    unfolding withLevel_def by (rule getTile_updTile[OF wf b xy])
  show "list_all2 sameButLevel
          (let tile = getTile g x y
           in if btype (building tile) \<notin> set SERVICE_BUILDING_TYPES then []
              else if case constructionProgress (building tile) of None \<Rightarrow> False | Some p \<Rightarrow> p < 100 then []
              else if abandoned (building tile) then []
              else [(x, y, btype (building tile), level (building tile))])
          (let tile = getTile (withLevel g bx by l') x y
           in if btype (building tile) \<notin> set SERVICE_BUILDING_TYPES then []
              else if case constructionProgress (building tile) of None \<Rightarrow> False | Some p \<Rightarrow> p < 100 then []
              else if abandoned (building tile) then []
              else [(x, y, btype (building tile), level (building tile))])"
    unfolding t Let_def using l by (auto simp: sameButLevel_def)
qed

lemma fold_bounded100:
  "wfCov s n \<Longrightarrow> bounded100 s n \<Longrightarrow> \<forall>b\<in>set bs. inGrid n b \<Longrightarrow>
   bounded100 (fold (applyServiceBuilding n) bs s) n"
proof (induction bs arbitrary: s)
  case (Cons b bs)
  obtain x y t l where b: "b = (x, y, t, l)" by (cases b)
  with Cons.prems have xy: "0 \<le> x" "x < n" "0 \<le> y" "y < n" by (auto simp: inGrid_def)
  show ?case
    using Cons.IH[OF apply_wfCov[OF Cons.prems(1) xy] apply_bounded100[OF Cons.prems(1,2) xy]] Cons.prems(3)
    by (simp add: b)
qed simp

lemma fold_mono:
  assumes "list_all2 sameButLevel bs bs'" "\<forall>b\<in>set bs. inGrid n b"
    "wfCov s n" "wfCov s' n" "bounded100 s n" "covLe s s' n"
  shows "covLe (fold (applyServiceBuilding n) bs s) (fold (applyServiceBuilding n) bs' s') n"
  using assms
proof (induction bs bs' arbitrary: s s' rule: list_all2_induct)
  case Nil
  then show ?case by simp
next
  case (Cons b bs b' bs')
  obtain x y t l where b: "b = (x, y, t, l)" by (cases b)
  obtain l' where b': "b' = (x, y, t, l')" and l: "l \<le> l'"
    using Cons.hyps(1) b by (cases b') (auto simp: sameButLevel_def)
  from Cons.prems(1) b have xy: "0 \<le> x" "x < n" "0 \<le> y" "y < n" by (auto simp: inGrid_def)
  have "covLe (fold (applyServiceBuilding n) bs (applyServiceBuilding n (x, y, t, l) s))
              (fold (applyServiceBuilding n) bs' (applyServiceBuilding n (x, y, t, l') s')) n"
  proof (rule Cons.IH)
    show "\<forall>b\<in>set bs. inGrid n b" using Cons.prems(1) by simp
    show "wfCov (applyServiceBuilding n (x, y, t, l) s) n" by (rule apply_wfCov[OF Cons.prems(2) xy])
    show "wfCov (applyServiceBuilding n (x, y, t, l') s') n" by (rule apply_wfCov[OF Cons.prems(3) xy])
    show "bounded100 (applyServiceBuilding n (x, y, t, l) s) n"
      by (rule apply_bounded100[OF Cons.prems(2,4) xy])
    show "covLe (applyServiceBuilding n (x, y, t, l) s) (applyServiceBuilding n (x, y, t, l') s') n"
      by (rule apply_mono[OF Cons.prems(2,3,4,5) xy l])
  qed
  then show ?case by (simp add: b b')
qed

lemma coverage_monotone_in_level:
  assumes wf: "wf_grid g n" and b: "0 \<le> bx" "bx < n" "0 \<le> by" "by < n"
    and l: "level (building (getTile g bx by)) \<le> l'"
  shows "covLe (calculateServiceCoverage g n) (calculateServiceCoverage (withLevel g bx by l') n) n"
proof -
  have n: "0 \<le> n" using b by simp
  have b0: "bounded100 (createServiceCoverage n) n"
    by (simp add: bounded100_def create_cells(3))
  have le0: "covLe (createServiceCoverage n) (createServiceCoverage n) n"
    by (simp add: covLe_def)
  show ?thesis
    unfolding calculateServiceCoverage_def
    by (rule fold_mono[OF collect_withLevel[OF wf b l] _ wfCov_create[OF n] wfCov_create[OF n] b0 le0])
       (simp add: collect_inGrid)
qed

section \<open>Service coverage: the claims\<close>

lemma floored_imp_euclidean:
  assumes "0 \<le> base" "inFlooredRange base l x y i j"
  shows "inEuclideanRange base l x y i j"
proof -
  let ?d2 = "(i - x) * (i - x) + (j - y) * (j - y)"
  let ?r = "serviceRange base l"
  have r0: "0 \<le> ?r" using assms(1) by (rule serviceRange_nonneg)
  have "real_of_int ?d2 \<le> (real_of_int ?r)\<^sup>2"
    using assms(2) unfolding inFlooredRange_def power2_eq_square
    by (metis of_int_le_iff of_int_mult)
  then have "sqrt (real_of_int ?d2) \<le> real_of_int ?r"
    using r0 by (simp add: real_le_lsqrt)
  also have "real_of_int ?r \<le> real_of_int base * (1 + (real l - 1) * 0.2)"
    unfolding serviceRange_def SERVICE_RANGE_INCREASE_PER_LEVEL_def Let_def by simp
  finally show ?thesis by (simp add: inEuclideanRange_def)
qed

lemma coveredBy_mono:
  "(\<And>l x y. R base l x y i j \<Longrightarrow> R' base l x y i j) \<Longrightarrow>
   coveredBy R g n t base i j \<Longrightarrow> coveredBy R' g n t base i j"
  unfolding coveredBy_iff by blast

text \<open>
  C3 (amended). On a square grid whose buildings have levels of at most 36 (which includes
  every level up to \<open>SERVICE_MAX_LEVEL\<close>), a tile is powered (watered) exactly when some
  power plant (water tower) that is not under construction and not abandoned has the tile
  within its floored range: the squared distance is at most the square of
  \<open>floor (baseRange * (1 + (level - 1) * 0.2))\<close>, with base range 15 (12). Every such
  tile is also within the unfloored Euclidean range, so a tile strictly outside every
  Euclidean range is not powered (watered).
\<close>

theorem C3_power_water_union_of_floored_circles:
  "wf_grid g n \<Longrightarrow> levelsAtMost g n 36 \<Longrightarrow> 0 \<le> nx \<Longrightarrow> nx < n \<Longrightarrow> 0 \<le> ny \<Longrightarrow> ny < n \<Longrightarrow>
     get2 (powerCov (calculateServiceCoverage g n)) nx ny
       = coveredBy inFlooredRange g n ''power_plant'' 15 nx ny
   \<and> get2 (waterCov (calculateServiceCoverage g n)) nx ny
       = coveredBy inFlooredRange g n ''water_tower'' 12 nx ny
   \<and> map_of SERVICE_CONFIG ''power_plant'' = Some (15, None)
   \<and> map_of SERVICE_CONFIG ''water_tower'' = Some (12, None)
   \<and> (\<not> coveredBy inEuclideanRange g n ''power_plant'' 15 nx ny
        \<longrightarrow> \<not> get2 (powerCov (calculateServiceCoverage g n)) nx ny)
   \<and> (\<not> coveredBy inEuclideanRange g n ''water_tower'' 12 nx ny
        \<longrightarrow> \<not> get2 (waterCov (calculateServiceCoverage g n)) nx ny)
   \<and> SERVICE_MAX_LEVEL \<le> 36"
proof -
  assume c: "0 \<le> nx" "nx < n" "0 \<le> ny" "ny < n"
  note p = power_union_of_circles[OF c, of g] and w = water_union_of_circles[OF c, of g]
  have "coveredBy inFlooredRange g n t base nx ny \<Longrightarrow> 0 \<le> base \<Longrightarrow>
        coveredBy inEuclideanRange g n t base nx ny" for t base
    by (erule coveredBy_mono[rotated]) (rule floored_imp_euclidean)
  from this[of "''power_plant''" 15] this[of "''water_tower''" 12] p w
  show ?thesis by (auto simp: SERVICE_CONFIG_def SERVICE_MAX_LEVEL_def)
qed

lemma wf_towerGrid: "wf_grid towerGrid 15"
  unfolding towerGrid_def by (intro wf_updTile wf_grassGrid) simp

lemma towerGrid_tile:
  "0 \<le> x \<Longrightarrow> x < 15 \<Longrightarrow> 0 \<le> y \<Longrightarrow> y < 15 \<Longrightarrow>
   getTile towerGrid x y =
     (if x = 0 \<and> y = 0
      then (createTile 0 0 ''grass'')\<lparr>building := (createBuilding ''water_tower'')\<lparr>level := 2, constructionProgress := Some 100\<rparr>\<rparr>
      else createTile x y ''grass'')"
  unfolding towerGrid_def
  by (simp add: getTile_updTile[OF wf_grassGrid] getTile_grassGrid)

lemma towerGrid_active:
  "0 \<le> x \<Longrightarrow> x < 15 \<Longrightarrow> 0 \<le> y \<Longrightarrow> y < 15 \<Longrightarrow>
   activeService (getTile towerGrid x y) ''water_tower'' = (x = 0 \<and> y = 0)"
  by (simp add: towerGrid_tile activeService_def createTile_def createBuilding_def)

lemma towerGrid_not_floored:
  "\<not> coveredBy inFlooredRange towerGrid 15 ''water_tower'' 12 14 1"
proof
  assume "coveredBy inFlooredRange towerGrid 15 ''water_tower'' 12 14 1"
  then obtain x y where xy: "0 \<le> x" "x < 15" "0 \<le> y" "y < 15"
    and a: "activeService (getTile towerGrid x y) ''water_tower''"
    and r: "inFlooredRange 12 (level (building (getTile towerGrid x y))) x y 14 1"
    unfolding coveredBy_iff by blast
  from a xy have "x = 0" "y = 0" by (simp_all add: towerGrid_active)
  with r show False
    by (simp add: towerGrid_tile inFlooredRange_def serviceRange_eq)
qed

lemma towerGrid_levels: "levelsAtMost towerGrid 15 36"
  by code_simp

theorem C3_witness:
  "wf_grid towerGrid 15 \<and> levelsAtMost towerGrid 15 36 \<and> (0::int) \<le> 14 \<and> (14::int) < 15 \<and> (0::int) \<le> 1 \<and> (1::int) < 15
   \<and> get2 (powerCov (calculateServiceCoverage towerGrid 15)) 14 1
       = coveredBy inFlooredRange towerGrid 15 ''power_plant'' 15 14 1
   \<and> get2 (waterCov (calculateServiceCoverage towerGrid 15)) 14 1
       = coveredBy inFlooredRange towerGrid 15 ''water_tower'' 12 14 1
   \<and> \<not> get2 (waterCov (calculateServiceCoverage towerGrid 15)) 14 1"
proof -
  note towerGrid_not_floored
  then show ?thesis
    using C3_power_water_union_of_floored_circles[OF wf_towerGrid towerGrid_levels, of 14 1]
      wf_towerGrid towerGrid_levels by simp
qed

text \<open>
  The claim as stated fails: a level 2 water tower at (0, 0) has effective range 14.4, the
  tile (14, 1) is at distance \<open>sqrt 197 < 14.4\<close>, and it is not watered, because the code
  compares with the floored range 14.
\<close>

theorem C3_counterexample:
  "coveredBy inEuclideanRange towerGrid 15 ''water_tower'' 12 14 1
   \<and> \<not> get2 (waterCov (calculateServiceCoverage towerGrid 15)) 14 1"
proof
  have "activeService (getTile towerGrid 0 0) ''water_tower''"
    by (simp add: towerGrid_active)
  moreover have "sqrt 197 \<le> 72 / 5"
    by (rule real_le_lsqrt) (simp_all add: power2_eq_square)
  then have "inEuclideanRange 12 (level (building (getTile towerGrid 0 0))) 0 0 14 1"
    by (simp add: towerGrid_tile inEuclideanRange_def)
  ultimately show "coveredBy inEuclideanRange towerGrid 15 ''water_tower'' 12 14 1"
    unfolding coveredBy_iff by (intro exI[of _ 0]) simp
  note towerGrid_not_floored
  then show "\<not> get2 (waterCov (calculateServiceCoverage towerGrid 15)) 14 1"
    by (simp add: water_union_of_circles)
qed

text \<open>
  C4. Replacing the level of the building on any tile by a strictly larger level and
  recomputing the coverage never decreases any tile's value in any of the six fields
  (on the boolean fields \<open>False < True\<close>).
\<close>

theorem C4_coverage_monotone_in_level:
  "wf_grid g n \<Longrightarrow> 0 \<le> bx \<Longrightarrow> bx < n \<Longrightarrow> 0 \<le> by \<Longrightarrow> by < n \<Longrightarrow>
   level (building (getTile g bx by)) < l' \<Longrightarrow> 0 \<le> i \<Longrightarrow> i < n \<Longrightarrow> 0 \<le> j \<Longrightarrow> j < n \<Longrightarrow>
     get2 (policeCov (calculateServiceCoverage g n)) i j
       \<le> get2 (policeCov (calculateServiceCoverage (withLevel g bx by l') n)) i j
   \<and> get2 (fireCov (calculateServiceCoverage g n)) i j
       \<le> get2 (fireCov (calculateServiceCoverage (withLevel g bx by l') n)) i j
   \<and> get2 (healthCov (calculateServiceCoverage g n)) i j
       \<le> get2 (healthCov (calculateServiceCoverage (withLevel g bx by l') n)) i j
   \<and> get2 (educationCov (calculateServiceCoverage g n)) i j
       \<le> get2 (educationCov (calculateServiceCoverage (withLevel g bx by l') n)) i j
   \<and> get2 (powerCov (calculateServiceCoverage g n)) i j
       \<le> get2 (powerCov (calculateServiceCoverage (withLevel g bx by l') n)) i j
   \<and> get2 (waterCov (calculateServiceCoverage g n)) i j
       \<le> get2 (waterCov (calculateServiceCoverage (withLevel g bx by l') n)) i j"
proof -
  assume wf: "wf_grid g n" and b: "0 \<le> bx" "bx < n" "0 \<le> by" "by < n"
    and l: "level (building (getTile g bx by)) < l'" and c: "0 \<le> i" "i < n" "0 \<le> j" "j < n"
  from l have l': "level (building (getTile g bx by)) \<le> l'" by simp
  from coverage_monotone_in_level[OF wf b l'] c
  have f: "\<And>f. get2 (getServiceField f (calculateServiceCoverage g n)) i j
        \<le> get2 (getServiceField f (calculateServiceCoverage (withLevel g bx by l') n)) i j"
    and p: "get2 (powerCov (calculateServiceCoverage g n)) i j
        \<le> get2 (powerCov (calculateServiceCoverage (withLevel g bx by l') n)) i j"
    and w: "get2 (waterCov (calculateServiceCoverage g n)) i j
        \<le> get2 (waterCov (calculateServiceCoverage (withLevel g bx by l') n)) i j"
    by (simp_all add: covLe_def)
  from f[of svc_police] f[of svc_fire] f[of svc_health] f[of svc_education] p w
  show ?thesis by (simp add: getServiceField_def)
qed

lemma wf_policeGrid: "wf_grid policeGrid 3"
  unfolding policeGrid_def by (intro wf_updTile wf_grassGrid) simp

theorem C4_witness:
  "wf_grid policeGrid 3 \<and> (0::int) \<le> 0 \<and> (0::int) < 3
   \<and> level (building (getTile policeGrid 0 0)) < 2 \<and> (0::int) \<le> 1 \<and> (1::int) < 3
   \<and> get2 (policeCov (calculateServiceCoverage policeGrid 3)) 1 1
       \<le> get2 (policeCov (calculateServiceCoverage (withLevel policeGrid 0 0 2) 3)) 1 1
   \<and> get2 (powerCov (calculateServiceCoverage policeGrid 3)) 1 1
       \<le> get2 (powerCov (calculateServiceCoverage (withLevel policeGrid 0 0 2) 3)) 1 1"
proof -
  have l: "level (building (getTile policeGrid 0 0)) < 2"
    unfolding policeGrid_def
    by (simp add: getTile_updTile[OF wf_grassGrid] createBuilding_def)
  from C4_coverage_monotone_in_level[OF wf_policeGrid _ _ _ _ l, of 1 1] l wf_policeGrid
  show ?thesis by simp
qed

section \<open>Placement and bulldozing outside the map\<close>

lemma tileAt_wf:
  "wf_grid g n \<Longrightarrow> tileAt g x y = (if 0 \<le> x \<and> x < n \<and> 0 \<le> y \<and> y < n then Some (getTile g x y) else None)"
  by (auto simp: tileAt_def getTile_def wf_grid_def list_all_length)

text \<open>
  C9. On a square grid, for coordinates outside the grid \<open>placeBuilding\<close> and
  \<open>bulldozeTile\<close> return the state they were given, and so does \<open>placeBuilding\<close> when
  the target tile is water.
\<close>

theorem C9_silent_noop:
  "wf_grid (grid state) (gridSize state) \<Longrightarrow>
     (\<not> (0 \<le> x \<and> x < gridSize state \<and> 0 \<le> y \<and> y < gridSize state)
        \<longrightarrow> placeBuilding T state x y buildingType z = state \<and> bulldozeTile state x y = state)
   \<and> (0 \<le> x \<and> x < gridSize state \<and> 0 \<le> y \<and> y < gridSize state
        \<and> btype (building (getTile (grid state) x y)) = ''water''
        \<longrightarrow> placeBuilding T state x y buildingType z = state)"
  by (simp add: placeBuilding_def bulldozeTile_def tileAt_wf)

lemma wf_bridgeMap: "wf_grid bridgeMap 5"
  unfolding bridgeMap_def by (simp add: wf_updTile wf_grassGrid)

lemma bridgeMap_water: "btype (building (getTile bridgeMap 1 0)) = ''water''"
  unfolding bridgeMap_def
  by (simp add: getTile_updTile[where n=5] wf_updTile wf_grassGrid createBuilding_def)

theorem C9_witness:
  "wf_grid (grid bridgeState) (gridSize bridgeState)
   \<and> placeBuilding exampleTables bridgeState 7 (- 1) (Some ''road'') None = bridgeState
   \<and> bulldozeTile bridgeState 7 (- 1) = bridgeState
   \<and> btype (building (getTile (grid bridgeState) 1 0)) = ''water''
   \<and> placeBuilding exampleTables bridgeState 1 0 (Some ''road'') None = bridgeState"
  using C9_silent_noop[of bridgeState 7 "- 1" exampleTables "Some ''road''" None]
        C9_silent_noop[of bridgeState 1 0 exampleTables "Some ''road''" None] wf_bridgeMap bridgeMap_water
  by (simp add: bridgeState_def)

section \<open>Bridge detection\<close>

lemma runTiles_Suc:
  "(x, y) # runTiles (x + dx) (y + dy) dx dy m = runTiles x y dx dy (Suc m)"
proof -
  have "[0..<Suc m] = 0 # map Suc [0..<m]"
    by (simp add: upt_conv_Cons map_Suc_upt del: upt_Suc)
  then show ?thesis
    by (simp add: runTiles_def comp_def algebra_simps del: upt_Suc)
qed

lemma scanLoop_Some:
  "scanLoop g gsz sx sy dx dy ori tt x y wt = Some opp \<Longrightarrow> int (length wt) \<le> MAX_BRIDGE_SPAN \<Longrightarrow>
   \<exists>m. oppWaterTiles opp = wt @ runTiles x y dx dy m
     \<and> list_all (\<lambda>(a, b). inBounds gsz a b \<and> btype (building (getTile g a b)) = ''water'')
          (runTiles x y dx dy m)
     \<and> 0 < length wt + m \<and> int (length wt + m) \<le> MAX_BRIDGE_SPAN
     \<and> oppSpan opp = int (length wt + m)
     \<and> oppEndX opp = x + int m * dx \<and> oppEndY opp = y + int m * dy
     \<and> inBounds gsz (oppEndX opp) (oppEndY opp)
     \<and> btype (building (getTile g (oppEndX opp) (oppEndY opp))) = trackName tt
     \<and> oppBridgeType opp = getBridgeTypeForSpan (oppSpan opp)
     \<and> oppStartX opp = sx \<and> oppStartY opp = sy \<and> oppOrientation opp = ori \<and> oppTrackType opp = tt"
proof (induction g gsz sx sy dx dy ori tt x y wt rule: scanLoop.induct)
  case (1 g gsz sx sy dx dy ori tt x y wt)
  from "1.prems" have inb: "inBounds gsz x y"
    by (subst (asm) scanLoop.simps) (auto simp: inBounds_def split: if_splits)
  show ?case
  proof (cases "btype (building (getTile g x y)) = ''water''")
    case True
    from "1.prems" inb True have short: "\<not> int (length (wt @ [(x, y)])) > MAX_BRIDGE_SPAN"
      and rec: "scanLoop g gsz sx sy dx dy ori tt (x + dx) (y + dy) (wt @ [(x, y)]) = Some opp"
      by (subst (asm) (1) scanLoop.simps; auto simp: inBounds_def split: if_splits)+
    from short have short': "int (length (wt @ [(x, y)])) \<le> MAX_BRIDGE_SPAN" by simp
    from "1.IH"[OF _ True short rec short'] inb
    obtain m where m: "oppWaterTiles opp = (wt @ [(x, y)]) @ runTiles (x + dx) (y + dy) dx dy m"
      "list_all (\<lambda>(a, b). inBounds gsz a b \<and> btype (building (getTile g a b)) = ''water'')
          (runTiles (x + dx) (y + dy) dx dy m)"
      "int (length (wt @ [(x, y)]) + m) \<le> MAX_BRIDGE_SPAN"
      "oppSpan opp = int (length (wt @ [(x, y)]) + m)"
      "oppEndX opp = x + dx + int m * dx" "oppEndY opp = y + dy + int m * dy"
      "inBounds gsz (oppEndX opp) (oppEndY opp)"
      "btype (building (getTile g (oppEndX opp) (oppEndY opp))) = trackName tt"
      "oppBridgeType opp = getBridgeTypeForSpan (oppSpan opp)"
      "oppStartX opp = sx" "oppStartY opp = sy" "oppOrientation opp = ori" "oppTrackType opp = tt"
      by (auto simp: inBounds_def)
    show ?thesis
    proof (intro exI[of _ "Suc m"] conjI)
      show "oppWaterTiles opp = wt @ runTiles x y dx dy (Suc m)"
        using m(1) by (simp add: runTiles_Suc[symmetric])
      show "list_all (\<lambda>(a, b). inBounds gsz a b \<and> btype (building (getTile g a b)) = ''water'')
          (runTiles x y dx dy (Suc m))"
        using m(2) inb True by (simp add: runTiles_Suc[symmetric] del: upt_Suc)
      show "oppEndX opp = x + int (Suc m) * dx" "oppEndY opp = y + int (Suc m) * dy"
        using m(5,6) by (simp_all add: algebra_simps)
    qed (use m in auto)
  next
    case False
    with "1.prems" inb have t: "btype (building (getTile g x y)) = trackName tt" and l: "length wt > 0"
      and o: "opp = \<lparr> oppStartX = sx, oppStartY = sy, oppEndX = x, oppEndY = y,
                     oppOrientation = ori, oppSpan = int (length wt),
                     oppBridgeType = getBridgeTypeForSpan (int (length wt)),
                     oppWaterTiles = wt, oppTrackType = tt \<rparr>"
      by (subst (asm) scanLoop.simps; auto simp: inBounds_def split: if_splits)+
    show ?thesis
      by (intro exI[of _ 0]) (use t l o inb "1.prems"(2) in \<open>simp add: runTiles_def\<close>)
  qed
qed

lemma scanForBridge_Some:
  assumes "scanForBridgeInDirection g gsz sx sy dx dy ori tt = Some opp"
  shows "1 \<le> oppSpan opp \<and> oppSpan opp \<le> MAX_BRIDGE_SPAN
       \<and> oppWaterTiles opp = runTiles (sx + dx) (sy + dy) dx dy (nat (oppSpan opp))
       \<and> list_all (\<lambda>(a, b). inBounds gsz a b \<and> btype (building (getTile g a b)) = ''water'')
            (oppWaterTiles opp)
       \<and> oppEndX opp = sx + (oppSpan opp + 1) * dx \<and> oppEndY opp = sy + (oppSpan opp + 1) * dy
       \<and> inBounds gsz (oppEndX opp) (oppEndY opp)
       \<and> btype (building (getTile g (oppEndX opp) (oppEndY opp))) = trackName tt
       \<and> oppBridgeType opp = getBridgeTypeForSpan (oppSpan opp)"
proof -
  from scanLoop_Some[OF assms[unfolded scanForBridgeInDirection_def]]
  obtain m where m: "oppWaterTiles opp = runTiles (sx + dx) (sy + dy) dx dy m"
     "list_all (\<lambda>(a, b). inBounds gsz a b \<and> btype (building (getTile g a b)) = ''water'')
          (runTiles (sx + dx) (sy + dy) dx dy m)"
     "0 < m" "int m \<le> MAX_BRIDGE_SPAN" "oppSpan opp = int m"
     "oppEndX opp = sx + dx + int m * dx" "oppEndY opp = sy + dy + int m * dy"
     "inBounds gsz (oppEndX opp) (oppEndY opp)"
     "btype (building (getTile g (oppEndX opp) (oppEndY opp))) = trackName tt"
     "oppBridgeType opp = getBridgeTypeForSpan (oppSpan opp)"
    by (auto simp: MAX_BRIDGE_SPAN_def)
  then show ?thesis by (simp add: algebra_simps)
qed


lemma runTiles_length [simp]: "length (runTiles x y dx dy m) = m"
  by (simp add: runTiles_def)







lemma scan_empty_run:
  assumes "btype (building (getTile g (sx + dx) (sy + dy))) \<noteq> ''water''"
  shows "scanForBridgeInDirection g gsz sx sy dx dy ori tt = None"
  unfolding scanForBridgeInDirection_def
  using assms by (subst scanLoop.simps) simp


















section \<open>Bulldozing a bridge\<close>

lemma toWater_idem: "toWater (toWater t) = toWater t"
  by (simp add: toWater_def)

lemma fold_updTile:
  assumes "wf_grid g n" "\<forall>(a, b)\<in>set ts. inBounds n a b" "0 \<le> i" "0 \<le> j" "\<And>t. f (f t) = f t"
  shows "wf_grid (fold (\<lambda>(bx, by) g'. updTile g' bx by f) ts g) n
       \<and> getTile (fold (\<lambda>(bx, by) g'. updTile g' bx by f) ts g) i j
           = (if (i, j) \<in> set ts then f (getTile g i j) else getTile g i j)"
  using assms(1,2)
proof (induction ts arbitrary: g)
  case Nil
  then show ?case by simp
next
  case (Cons p ts)
  obtain a b where p: "p = (a, b)" by (cases p)
  with Cons.prems(2) have ab: "0 \<le> a" "a < n" "0 \<le> b" "b < n" by (auto simp: inBounds_def)
  have wf': "wf_grid (updTile g a b f) n" using Cons.prems(1) by (rule wf_updTile)
  note step = getTile_updTile[OF Cons.prems(1) ab assms(3,4), of f]
  from Cons.IH[OF wf'] Cons.prems(2) step assms(5)
  show ?case by (auto simp: p)
qed

lemma bridgeWalk_fwd_ns:
  "(i, j) \<in> set (bridgeWalk g gsz ns True cx cy) \<longleftrightarrow>
     j = cy \<and> cx \<le> i \<and> i < gsz \<and> 0 \<le> cx \<and> 0 \<le> cy \<and> cy < gsz
     \<and> (\<forall>c. cx \<le> c \<and> c \<le> i \<longrightarrow> isBridgeOf g ns c cy)"
proof (induction g gsz ns True cx cy rule: bridgeWalk.induct)
  case (1 g gsz cx cy)
  show ?case
  proof (cases "cx \<ge> 0 \<and> cx < gsz \<and> cy \<ge> 0 \<and> cy < gsz \<and> isBridgeOf g ns cx cy")
    case True
    then have "bridgeWalk g gsz ns True cx cy = (cx, cy) # bridgeWalk g gsz ns True (cx + 1) cy"
      by (subst bridgeWalk.simps) (simp add: isBridgeOf_def)
    moreover have "(\<forall>c. cx \<le> c \<and> c \<le> i \<longrightarrow> isBridgeOf g ns c cy)
        \<longleftrightarrow> (cx \<le> i \<longrightarrow> (\<forall>c. cx + 1 \<le> c \<and> c \<le> i \<longrightarrow> isBridgeOf g ns c cy))"
      using True by (metis add1_zle_eq order_le_less order_trans)
    ultimately show ?thesis
      using "1.hyps"[of ] True by (auto simp: isBridgeOf_def)
  next
    case False
    then have "bridgeWalk g gsz ns True cx cy = []"
      by (subst bridgeWalk.simps) (auto simp: isBridgeOf_def)
    with False show ?thesis by auto
  qed
qed

lemma bridgeWalk_fwd_ew:
  "(i, j) \<in> set (bridgeWalk g gsz ew True cx cy) \<longleftrightarrow>
     i = cx \<and> cy \<le> j \<and> j < gsz \<and> 0 \<le> cy \<and> 0 \<le> cx \<and> cx < gsz
     \<and> (\<forall>c. cy \<le> c \<and> c \<le> j \<longrightarrow> isBridgeOf g ew cx c)"
proof (induction g gsz ew True cx cy rule: bridgeWalk.induct)
  case (1 g gsz cx cy)
  show ?case
  proof (cases "cx \<ge> 0 \<and> cx < gsz \<and> cy \<ge> 0 \<and> cy < gsz \<and> isBridgeOf g ew cx cy")
    case True
    then have "bridgeWalk g gsz ew True cx cy = (cx, cy) # bridgeWalk g gsz ew True cx (cy + 1)"
      by (subst bridgeWalk.simps) (simp add: isBridgeOf_def)
    moreover have "(\<forall>c. cy \<le> c \<and> c \<le> j \<longrightarrow> isBridgeOf g ew cx c)
        \<longleftrightarrow> (cy \<le> j \<longrightarrow> (\<forall>c. cy + 1 \<le> c \<and> c \<le> j \<longrightarrow> isBridgeOf g ew cx c))"
      using True by (metis add1_zle_eq order_le_less order_trans)
    ultimately show ?thesis
      using "1.hyps" True by (auto simp: isBridgeOf_def)
  next
    case False
    then have "bridgeWalk g gsz ew True cx cy = []"
      by (subst bridgeWalk.simps) (auto simp: isBridgeOf_def)
    with False show ?thesis by auto
  qed
qed

lemma bridgeWalk_bwd_ns:
  "(i, j) \<in> set (bridgeWalk g gsz ns False cx cy) \<longleftrightarrow>
     j = cy \<and> i \<le> cx \<and> 0 \<le> i \<and> cx < gsz \<and> 0 \<le> cy \<and> cy < gsz
     \<and> (\<forall>c. i \<le> c \<and> c \<le> cx \<longrightarrow> isBridgeOf g ns c cy)"
proof (induction g gsz ns False cx cy rule: bridgeWalk.induct)
  case (1 g gsz cx cy)
  show ?case
  proof (cases "cx \<ge> 0 \<and> cx < gsz \<and> cy \<ge> 0 \<and> cy < gsz \<and> isBridgeOf g ns cx cy")
    case True
    then have "bridgeWalk g gsz ns False cx cy = (cx, cy) # bridgeWalk g gsz ns False (cx - 1) cy"
      by (subst bridgeWalk.simps) (simp add: isBridgeOf_def)
    moreover have "(\<forall>c. i \<le> c \<and> c \<le> cx \<longrightarrow> isBridgeOf g ns c cy)
        \<longleftrightarrow> (i \<le> cx \<longrightarrow> (\<forall>c. i \<le> c \<and> c \<le> cx - 1 \<longrightarrow> isBridgeOf g ns c cy))"
      using True by (metis zle_diff1_eq order_le_less order_trans)
    ultimately show ?thesis
      using "1.hyps" True by (auto simp: isBridgeOf_def)
  next
    case False
    then have "bridgeWalk g gsz ns False cx cy = []"
      by (subst bridgeWalk.simps) (auto simp: isBridgeOf_def)
    with False show ?thesis by auto
  qed
qed

lemma bridgeWalk_bwd_ew:
  "(i, j) \<in> set (bridgeWalk g gsz ew False cx cy) \<longleftrightarrow>
     i = cx \<and> j \<le> cy \<and> 0 \<le> j \<and> cy < gsz \<and> 0 \<le> cx \<and> cx < gsz
     \<and> (\<forall>c. j \<le> c \<and> c \<le> cy \<longrightarrow> isBridgeOf g ew cx c)"
proof (induction g gsz ew False cx cy rule: bridgeWalk.induct)
  case (1 g gsz cx cy)
  show ?case
  proof (cases "cx \<ge> 0 \<and> cx < gsz \<and> cy \<ge> 0 \<and> cy < gsz \<and> isBridgeOf g ew cx cy")
    case True
    then have "bridgeWalk g gsz ew False cx cy = (cx, cy) # bridgeWalk g gsz ew False cx (cy - 1)"
      by (subst bridgeWalk.simps) (simp add: isBridgeOf_def)
    moreover have "(\<forall>c. j \<le> c \<and> c \<le> cy \<longrightarrow> isBridgeOf g ew cx c)
        \<longleftrightarrow> (j \<le> cy \<longrightarrow> (\<forall>c. j \<le> c \<and> c \<le> cy - 1 \<longrightarrow> isBridgeOf g ew cx c))"
      using True by (metis zle_diff1_eq order_le_less order_trans)
    ultimately show ?thesis
      using "1.hyps" True by (auto simp: isBridgeOf_def)
  next
    case False
    then have "bridgeWalk g gsz ew False cx cy = []"
      by (subst bridgeWalk.simps) (auto simp: isBridgeOf_def)
    with False show ?thesis by auto
  qed
qed

lemma up_split:
  fixes x i :: int
  shows "(\<forall>c. x \<le> c \<and> c \<le> i \<longrightarrow> c = x \<or> P c) \<longleftrightarrow> (\<forall>c. x + 1 \<le> c \<and> c \<le> i \<longrightarrow> P c)"
proof (intro iffI allI impI)
  fix c assume L: "\<forall>c. x \<le> c \<and> c \<le> i \<longrightarrow> c = x \<or> P c" and c: "x + 1 \<le> c \<and> c \<le> i"
  then have "x \<le> c \<and> c \<le> i" "c \<noteq> x" by auto
  with L show "P c" by blast
next
  fix c assume R: "\<forall>c. x + 1 \<le> c \<and> c \<le> i \<longrightarrow> P c" and c: "x \<le> c \<and> c \<le> i"
  show "c = x \<or> P c"
  proof (cases "c = x")
    case False
    with c have "x + 1 \<le> c \<and> c \<le> i" by auto
    with R show ?thesis by blast
  qed simp
qed

lemma down_split:
  fixes x i :: int
  shows "(\<forall>c. i \<le> c \<and> c \<le> x \<longrightarrow> c = x \<or> P c) \<longleftrightarrow> (\<forall>c. i \<le> c \<and> c \<le> x - 1 \<longrightarrow> P c)"
proof (intro iffI allI impI)
  fix c assume L: "\<forall>c. i \<le> c \<and> c \<le> x \<longrightarrow> c = x \<or> P c" and c: "i \<le> c \<and> c \<le> x - 1"
  then have "i \<le> c \<and> c \<le> x" "c \<noteq> x" by auto
  with L show "P c" by blast
next
  fix c assume R: "\<forall>c. i \<le> c \<and> c \<le> x - 1 \<longrightarrow> P c" and c: "i \<le> c \<and> c \<le> x"
  show "c = x \<or> P c"
  proof (cases "c = x")
    case False
    with c have "i \<le> c \<and> c \<le> x - 1" by auto
    with R show ?thesis by blast
  qed simp
qed

lemma run_cases:
  fixes x i n :: int
  assumes "0 \<le> x" "x < n"
  shows "(0 \<le> i \<and> i < n \<and> (\<forall>c. min i x \<le> c \<and> c \<le> max i x \<longrightarrow> c = x \<or> P c)) \<longleftrightarrow>
     (i = x \<or> (x + 1 \<le> i \<and> i < n \<and> (\<forall>c. x + 1 \<le> c \<and> c \<le> i \<longrightarrow> P c))
            \<or> (i \<le> x - 1 \<and> 0 \<le> i \<and> (\<forall>c. i \<le> c \<and> c \<le> x - 1 \<longrightarrow> P c)))"
proof -
  consider "i = x" | "x < i" | "i < x" by linarith
  then show ?thesis
  proof cases
    case 1
    with assms show ?thesis by auto
  next
    case 2
    then have "min i x = x" "max i x = i" by auto
    with 2 assms up_split[of x i P] show ?thesis by auto
  next
    case 3
    then have "min i x = i" "max i x = x" by auto
    with 3 assms down_split[of i x P] show ?thesis by auto
  qed
qed

lemma findConnected_set:
  assumes wf: "wf_grid g gsz" and xy: "inBounds gsz x y"
    and br: "btype (building (getTile g x y)) = ''bridge''"
  shows "(i, j) \<in> set (findConnectedBridgeTiles g gsz x y) \<longleftrightarrow> inBridgeRun g gsz x y i j"
proof -
  let ?o = "case bridgeOrientation (building (getTile g x y)) of Some ori \<Rightarrow> ori | None \<Rightarrow> ns"
  from xy have b: "0 \<le> x" "x < gsz" "0 \<le> y" "y < gsz" by (auto simp: inBounds_def)
  have fc: "findConnectedBridgeTiles g gsz x y =
      [(x, y)] @ bridgeWalk g gsz ?o True (x + (if ?o = ns then 1 else 0)) (y + (if ?o = ns then 0 else 1))
        @ bridgeWalk g gsz ?o False (x - (if ?o = ns then 1 else 0)) (y - (if ?o = ns then 0 else 1))"
    using b br by (simp add: findConnectedBridgeTiles_def tileAt_wf[OF wf] Let_def)
  show ?thesis
  proof (cases "?o")
    case ns
    have "inBridgeRun g gsz x y i j \<longleftrightarrow>
        j = y \<and> (0 \<le> i \<and> i < gsz \<and> (\<forall>c. min i x \<le> c \<and> c \<le> max i x \<longrightarrow> c = x \<or> isBridgeOf g ns c y))"
      using ns by (auto simp add: inBridgeRun_def Let_def list_all_iff)
    also have "\<dots> \<longleftrightarrow> (i, j) \<in> set (findConnectedBridgeTiles g gsz x y)"
      unfolding fc run_cases[OF b(1,2)] using ns b
      by (simp add: bridgeWalk_fwd_ns bridgeWalk_bwd_ns) blast
    finally show ?thesis by simp
  next
    case ew
    have "inBridgeRun g gsz x y i j \<longleftrightarrow>
        i = x \<and> (0 \<le> j \<and> j < gsz \<and> (\<forall>c. min j y \<le> c \<and> c \<le> max j y \<longrightarrow> c = y \<or> isBridgeOf g ew x c))"
      using ew by (auto simp add: inBridgeRun_def Let_def list_all_iff)
    also have "\<dots> \<longleftrightarrow> (i, j) \<in> set (findConnectedBridgeTiles g gsz x y)"
      unfolding fc run_cases[OF b(3,4)] using ew b
      by (simp add: bridgeWalk_fwd_ew bridgeWalk_bwd_ew) blast
    finally show ?thesis by simp
  qed
qed

lemma inBridgeRun_inBounds:
  "inBounds gsz x y \<Longrightarrow> inBridgeRun g gsz x y i j \<Longrightarrow> inBounds gsz i j"
  by (auto simp: inBridgeRun_def inBounds_def Let_def split: if_splits)

lemma bulldoze_bridge:
  assumes wf: "wf_grid (grid state) (gridSize state)" and xy: "inBounds (gridSize state) x y"
    and br: "btype (building (getTile (grid state) x y)) = ''bridge''"
    and ij: "inBounds (gridSize state) i j"
  shows "getTile (grid (bulldozeTile state x y)) i j =
        (if inBridgeRun (grid state) (gridSize state) x y i j
         then toWater (getTile (grid state) i j) else getTile (grid state) i j)"
    and "wf_grid (grid (bulldozeTile state x y)) (gridSize state)"
    and "bulldozeTile state x y = state\<lparr>grid := grid (bulldozeTile state x y)\<rparr>"
proof -
  let ?ts = "findConnectedBridgeTiles (grid state) (gridSize state) x y"
  from xy have b: "0 \<le> x" "x < gridSize state" "0 \<le> y" "y < gridSize state"
    by (auto simp: inBounds_def)
  have bd: "bulldozeTile state x y =
      state\<lparr>grid := fold (\<lambda>(bx, by) g'. updTile g' bx by toWater) ?ts (grid state)\<rparr>"
    using b br by (simp add: bulldozeTile_def tileAt_wf[OF wf] Let_def)
  have inb: "\<forall>(a, b)\<in>set ?ts. inBounds (gridSize state) a b"
    using findConnected_set[OF wf xy br] inBridgeRun_inBounds[OF xy] by auto
  from ij have ij': "0 \<le> i" "0 \<le> j" by (auto simp: inBounds_def)
  note f = fold_updTile[OF wf inb ij', of toWater, OF toWater_idem]
  show "getTile (grid (bulldozeTile state x y)) i j =
        (if inBridgeRun (grid state) (gridSize state) x y i j
         then toWater (getTile (grid state) i j) else getTile (grid state) i j)"
    using f findConnected_set[OF wf xy br, of i j] by (simp add: bd)
  show "wf_grid (grid (bulldozeTile state x y)) (gridSize state)"
    using f by (simp add: bd)
  show "bulldozeTile state x y = state\<lparr>grid := grid (bulldozeTile state x y)\<rparr>"
    by (simp add: bd)
qed

text \<open>
  C10. Bulldozing a bridge tile at (x, y) of a square grid turns every tile of the run of
  bridge tiles through (x, y) along the bridge's axis (along x for \<open>ns\<close>, along y for
  \<open>ew\<close>; neighbours count while they are bridges of the same orientation, an orientation
  left undefined on the start tile counting as \<open>ns\<close>) into a water tile with zone
  \<open>none\<close> and no rail overlay, leaves every other tile as it was, and changes nothing
  else in the state.
\<close>

theorem C10_bulldoze_bridge_run:
  "wf_grid (grid state) (gridSize state) \<Longrightarrow> inBounds (gridSize state) x y \<Longrightarrow>
   btype (building (getTile (grid state) x y)) = ''bridge'' \<Longrightarrow> inBounds (gridSize state) i j \<Longrightarrow>
     getTile (grid (bulldozeTile state x y)) i j =
        (if inBridgeRun (grid state) (gridSize state) x y i j
         then (getTile (grid state) i j)\<lparr>building := createBuilding ''water'', zone := zone_none,
                                           hasRailOverlay := Some False\<rparr>
         else getTile (grid state) i j)
   \<and> wf_grid (grid (bulldozeTile state x y)) (gridSize state)
   \<and> bulldozeTile state x y = state\<lparr>grid := grid (bulldozeTile state x y)\<rparr>"
  using bulldoze_bridge[of state x y i j] by (simp add: toWater_def)

theorem C10_witness:
  "wf_grid (grid bridgedState) (gridSize bridgedState) \<and> inBounds (gridSize bridgedState) 2 0
   \<and> btype (building (getTile (grid bridgedState) 2 0)) = ''bridge''
   \<and> inBounds (gridSize bridgedState) 3 0 \<and> inBounds (gridSize bridgedState) 4 0
   \<and> getTile (grid (bulldozeTile bridgedState 2 0)) 3 0
       = (getTile (grid bridgedState) 3 0)\<lparr>building := createBuilding ''water'', zone := zone_none,
                                             hasRailOverlay := Some False\<rparr>
   \<and> getTile (grid (bulldozeTile bridgedState 2 0)) 4 0 = getTile (grid bridgedState) 4 0"
proof -
  have wf: "wf_grid (grid bridgedState) (gridSize bridgedState)"
    by (simp add: bridgedState_def bridgeState_def bridgedMap_def wf_updTile wf_bridgeMap)
  have b: "inBounds (gridSize bridgedState) 2 0" "inBounds (gridSize bridgedState) 3 0"
    "inBounds (gridSize bridgedState) 4 0"
    by (simp_all add: bridgedState_def bridgeState_def inBounds_def)
  have br: "btype (building (getTile (grid bridgedState) 2 0)) = ''bridge''"
    by code_simp
  have r: "inBridgeRun (grid bridgedState) (gridSize bridgedState) 2 0 3 0"
    "\<not> inBridgeRun (grid bridgedState) (gridSize bridgedState) 2 0 4 0"
    by code_simp+
  from C10_bulldoze_bridge_run[OF wf b(1) br b(2)] C10_bulldoze_bridge_run[OF wf b(1) br b(3)]
       wf b br r
  show ?thesis by simp
qed

section \<open>One tick on concrete states\<close>

text \<open>Square roots of the small perfect squares that occur when a tick is evaluated.\<close>

lemma sqrt_code [code]:
  "sqrt x = (if x = 0 then 0 else if x = 1 then 1 else if x = 4 then 2 else if x = 9 then 3
             else if x = 16 then 4 else Code.abort (STR ''sqrt'') (\<lambda>_. sqrt x))"
proof -
  have "sqrt 9 = 3" "sqrt 16 = 4"
    using real_sqrt_abs[of 3] real_sqrt_abs[of 4] by simp_all
  then show ?thesis by simp
qed

text \<open>
  Claim C1 (simulateTick never mutates its input) fails on the code. In \<^const>\<open>scrubState\<close>
  the tile (0,1) has pollution 10 before the tick. The finished water tower at (0,0) is
  processed first; its scrub loop writes through \<open>newGrid[1][0]\<close> although row 1 has not been
  copied yet, so that row is still the caller's row. After the tick the caller's own grid
  (read through \<^const>\<open>viewInput\<close>) has pollution 5 at (0,1): the input has been mutated.
  The pollution-spread loop right below it, and every other write of the tick, copies the
  row first.
\<close>

theorem C1_input_mutated:
  "pollution (getTile (grid scrubState) 0 1) = 10 \<and>
   pollution (getTile (viewInput (simulateTick exampleTables (\<lambda>_. 0) (\<lambda>_. False) 0 scrubState)) 0 1) = 5"
  by code_simp

text \<open>
  Claim C2 (tiles of type grass, water, road, tree, empty, bridge or rail never catch fire)
  fails on the code for rail (and bridge). On \<^const>\<open>railState\<close> the only tile is a rail tile
  that is not burning. The neighbour-spread test excludes bridge and rail, but the
  self-ignition test lists only water, road, grass, empty and tree; with a first draw
  below 0.00003 the rail tile is on fire after the tick, still of type rail.
\<close>

theorem C2_rail_self_ignites:
  "btype (building (getTile (grid railState) 0 0)) = ''rail'' \<and>
   \<not> onFire (building (getTile (grid railState) 0 0)) \<and>
   disastersEnabled railState \<and>
   onFire (building (getTile (viewNew (simulateTick exampleTables (\<lambda>_. 0) (\<lambda>_. False) 0 railState)) 0 0)) \<and>
   btype (building (getTile (viewNew (simulateTick exampleTables (\<lambda>_. 0) (\<lambda>_. False) 0 railState)) 0 0)) = ''rail''"
  by code_simp

section \<open>The row store\<close>

lemma fold_heap_other:
  "a \<notin> set (map fst ps) \<Longrightarrow> fold (\<lambda>(a, row) h. h(a := row)) ps h a = h a"
  by (induction ps arbitrary: h) auto

lemma map_fold_heap:
  "distinct as \<Longrightarrow> length as = length rows \<Longrightarrow>
   map (fold (\<lambda>(a, row) h. h(a := row)) (zip as rows) h) as = rows"
proof (induction as arbitrary: rows h)
  case Nil
  then show ?case by simp
next
  case (Cons a as)
  then obtain r rs where rows: "rows = r # rs" by (cases rows) auto
  have a: "a \<notin> set (map fst (zip as rs))"
    using Cons.prems by (auto dest: set_zip_leftD)
  have hd: "fold (\<lambda>(a, row) h. h(a := row)) (zip as rs) (h(a := r)) a = r"
    by (subst fold_heap_other[OF a]) simp
  have tl: "map (fold (\<lambda>(a, row) h. h(a := row)) (zip as rs) (h(a := r))) as = rs"
    by (rule Cons.IH) (use Cons.prems rows in auto)
  show ?case
    unfolding rows by (simp only: zip_Cons_Cons fold_Cons list.map comp_apply prod.case hd tl)
qed

lemma viewNew_writeNew:
  "storeInv n s \<Longrightarrow> wf_grid g' n \<Longrightarrow> viewNew (writeNew g' s) = g'"
  by (simp add: viewNew_def writeNew_def storeInv_def wf_grid_def map_fold_heap)

lemma storeInv_writeNew:
  assumes "storeInv n s" "wf_grid g' n"
  shows "storeInv n (writeNew g' s)"
proof -
  have v: "viewNew (writeNew g' s) = g'" using assms by (rule viewNew_writeNew)
  show ?thesis
    unfolding storeInv_def v using assms by (simp add: storeInv_def writeNew_def)
qed

lemma viewNew_copyRow:
  assumes "storeInv n s" "0 \<le> y" "y < n"
  shows "viewNew (copyRow y s) = viewNew s"
proof (cases "y \<in> modifiedRows s")
  case True
  then show ?thesis by (simp add: copyRow_def)
next
  case False
  from assms have len: "length (newRows s) = nat n" and bound: "\<forall>a\<in>set (newRows s). a < nextAddr s"
    and shared: "newRows s ! nat y = inputRows s ! nat y"
    using False by (auto simp: storeInv_def)
  have yl: "nat y < length (newRows s)" using assms len by simp
  show ?thesis
    unfolding viewNew_def
  proof (rule nth_equalityI)
    show "length (map (heap (copyRow y s)) (newRows (copyRow y s))) = length (map (heap s) (newRows s))"
      using False by (simp add: copyRow_def)
  next
    fix i assume "i < length (map (heap (copyRow y s)) (newRows (copyRow y s)))"
    then have i: "i < length (newRows s)" using False by (simp add: copyRow_def)
    then have "newRows s ! i < nextAddr s" using bound by simp
    then show "map (heap (copyRow y s)) (newRows (copyRow y s)) ! i = map (heap s) (newRows s) ! i"
      using False i yl shared by (auto simp: copyRow_def nth_list_update)
  qed
qed

lemma storeInv_copyRow:
  assumes "storeInv n s" "0 \<le> y" "y < n"
  shows "storeInv n (copyRow y s)"
proof (cases "y \<in> modifiedRows s")
  case True
  then show ?thesis using assms by (simp add: copyRow_def)
next
  case False
  have v: "viewNew (copyRow y s) = viewNew s" using assms by (rule viewNew_copyRow)
  from assms have len: "length (newRows s) = nat n" and d: "distinct (newRows s)"
    and bound: "\<forall>a\<in>set (newRows s). a < nextAddr s" "\<forall>a\<in>set (inputRows s). a < nextAddr s"
    and shared: "\<forall>y. 0 \<le> y \<and> y < n \<and> y \<notin> modifiedRows s \<longrightarrow> newRows s ! nat y = inputRows s ! nat y"
    and wf: "wf_grid (viewNew s) n" and li: "length (inputRows s) = nat n"
    by (auto simp: storeInv_def)
  have fresh: "nextAddr s \<notin> set (newRows s)" using bound by auto
  have d': "distinct ((newRows s)[nat y := nextAddr s])"
    using d fresh by (simp add: distinct_list_update)
  have b': "\<forall>a\<in>set ((newRows s)[nat y := nextAddr s]). a < Suc (nextAddr s)"
    using bound(1) by (auto dest!: set_update_subset_insert[THEN subsetD])
  have al': "\<forall>y'. 0 \<le> y' \<and> y' < n \<and> y' \<notin> insert y (modifiedRows s) \<longrightarrow>
        (newRows s)[nat y := nextAddr s] ! nat y' = inputRows s ! nat y'"
    using shared assms(2) by (auto simp: nth_list_update)
  show ?thesis
    unfolding storeInv_def v
    using False len li d' b' al' wf bound(2) by (auto simp: copyRow_def less_Suc_eq)
qed

lemma viewNew_mutateNew:
  "storeInv n s \<Longrightarrow> wf_grid (f (viewNew s)) n \<Longrightarrow> viewNew (mutateNew f s) = f (viewNew s)"
  by (simp add: mutateNew_def viewNew_writeNew)

lemma storeInv_mutateNew:
  "storeInv n s \<Longrightarrow> wf_grid (f (viewNew s)) n \<Longrightarrow> storeInv n (mutateNew f s)"
  by (simp add: mutateNew_def storeInv_writeNew)

lemma storeInv_fields [simp]:
  "storeInv n (s\<lparr>drawCount := k\<rparr>) = storeInv n s"
  "storeInv n (s\<lparr>visitedBuf := v\<rparr>) = storeInv n s"
  "storeInv n (drawn s) = storeInv n s"
  "storeInv n (logFootprint placed s) = storeInv n s"
  by (simp_all add: storeInv_def viewNew_def drawn_def logFootprint_def split: option.splits)

lemma viewNew_fields [simp]:
  "viewNew (s\<lparr>drawCount := k\<rparr>) = viewNew s"
  "viewNew (s\<lparr>visitedBuf := v\<rparr>) = viewNew s"
  "viewNew (drawn s) = viewNew s"
  "viewNew (logFootprint placed s) = viewNew s"
  by (simp_all add: viewNew_def drawn_def logFootprint_def split: option.splits)

lemma footprintLog_fields [simp]:
  "footprintLog (drawn s) = footprintLog s"
  "footprintLog (writeNew g' s) = footprintLog s"
  "footprintLog (mutateNew f s) = footprintLog s"
  "footprintLog (copyRow y s) = footprintLog s"
  "footprintLog (logFootprint placed s) = footprintLog s @ (case placed of None \<Rightarrow> [] | Some origin \<Rightarrow> [origin])"
  "footprintLog (initStore g v k) = []"
  by (simp_all add: drawn_def writeNew_def mutateNew_def copyRow_def logFootprint_def initStore_def
      split: option.splits)

lemma storeInv_init: "wf_grid g n \<Longrightarrow> storeInv n (initStore g v k)"
  unfolding storeInv_def
  by (auto simp: initStore_def viewNew_def wf_grid_def list_all_length)

lemma viewNew_init: "viewNew (initStore g v k) = g"
  by (simp add: initStore_def viewNew_def map_nth)

lemma keeps_refl: "keeps e t t"
  by (simp add: keeps_def)

lemma keeps_trans: "keeps e t t' \<Longrightarrow> keeps e t' t'' \<Longrightarrow> keeps e t t''"
  unfolding keeps_def by fastforce

lemma keeps_weaken: "keeps e t t' \<Longrightarrow> (e \<Longrightarrow> e') \<Longrightarrow> keeps e' t t'"
  unfolding keeps_def by blast

lemma keeps_same:
  "constructionProgress (building t') = constructionProgress (building t) \<Longrightarrow> keeps e t t'"
  by (auto simp: keeps_def)

lemma keeps_up:
  "constructionProgress (building t) = Some p
   \<Longrightarrow> constructionProgress (building t') = Some p' \<Longrightarrow> p \<le> p' \<Longrightarrow> p' \<le> 100 \<Longrightarrow> keeps e t t'"
  by (auto simp: keeps_def)

lemma keeps_new:
  "constructionProgress (building t') = Some p' \<Longrightarrow> p' \<le> 100 \<Longrightarrow> p' = 100 \<or> e \<Longrightarrow> keeps e t t'"
  by (auto simp: keeps_def)

lemma createBuilding_progress:
  "\<exists>p. constructionProgress (createBuilding ty) = Some p \<and> p \<le> 100"
  by (simp add: createBuilding_def)

lemma createBuilding_plain [simp]:
  "constructionProgress (createBuilding ''grass'') = Some 100"
  "constructionProgress (createBuilding ''empty'') = Some 100"
  by (simp_all add: createBuilding_def NO_CONSTRUCTION_TYPES_def)

lemma gkeeps_refl: "wf_grid g n \<Longrightarrow> gkeeps n X g g"
  by (simp add: gkeeps_def keeps_refl)

lemma gkeeps_trans: "gkeeps n X g g' \<Longrightarrow> gkeeps n X g' g'' \<Longrightarrow> gkeeps n X g g''"
  unfolding gkeeps_def by (blast intro: keeps_trans)

lemma gkeeps_mono: "gkeeps n X g g' \<Longrightarrow> X \<subseteq> Y \<Longrightarrow> gkeeps n Y g g'"
  unfolding gkeeps_def by (blast intro: keeps_weaken)

lemma gkeeps_wf: "gkeeps n X g g' \<Longrightarrow> wf_grid g' n"
  by (simp add: gkeeps_def)

lemma updTile_outside:
  assumes "wf_grid g n" "0 \<le> x" "0 \<le> y" "\<not> (x < n \<and> y < n)"
  shows "updTile g x y f = g"
proof (cases "y < n")
  case True
  then have "length (g ! nat y) = nat n" using assms by (simp add: wf_grid_nth)
  moreover have "nat n \<le> nat x" using assms True by linarith
  ultimately have "(g ! nat y)[nat x := f (g ! nat y ! nat x)] = g ! nat y"
    by (intro list_update_beyond) simp
  then show ?thesis by (simp add: updTile_def)
next
  case False
  then have "length g \<le> nat y" using assms by (simp add: wf_grid_def)
  then show ?thesis unfolding updTile_def by (rule list_update_beyond)
qed

lemma gkeeps_updTile:
  assumes wf: "wf_grid g n" and x: "0 \<le> x" and y: "0 \<le> y"
    and k: "x < n \<Longrightarrow> y < n \<Longrightarrow> keeps ((x, y) \<in> X) (getTile g x y) (f (getTile g x y))"
  shows "gkeeps n X g (updTile g x y f)"
proof (cases "x < n \<and> y < n")
  case True
  show ?thesis
    unfolding gkeeps_def
  proof (intro conjI allI impI)
    show "wf_grid (updTile g x y f) n" using wf by (rule wf_updTile)
  next
    fix i j assume ij: "0 \<le> i \<and> i < n \<and> 0 \<le> j \<and> j < n"
    have "getTile (updTile g x y f) i j = (if i = x \<and> j = y then f (getTile g x y) else getTile g i j)"
      using wf x y True ij by (intro getTile_updTile) auto
    then show "keeps ((i, j) \<in> X) (getTile g i j) (getTile (updTile g x y f) i j)"
      using k True by (auto simp: keeps_refl)
  qed
next
  case False
  then show ?thesis using updTile_outside[OF wf x y] wf by (simp add: gkeeps_refl)
qed

lemma gkeeps_setBuilding:
  assumes "wf_grid g n" "0 \<le> x" "0 \<le> y"
    "x < n \<Longrightarrow> y < n \<Longrightarrow> keeps ((x, y) \<in> X) (getTile g x y) ((getTile g x y)\<lparr>building := b\<rparr>)"
  shows "gkeeps n X g (setBuilding g x y b)"
  unfolding setBuilding_def using assms by (intro gkeeps_updTile) auto

lemma gkeeps_modBuilding:
  assumes "wf_grid g n" "0 \<le> x" "0 \<le> y"
    "\<And>b. constructionProgress (f b) = constructionProgress b"
  shows "gkeeps n X g (modBuilding g x y f)"
  unfolding modBuilding_def using assms by (intro gkeeps_updTile) (auto intro: keeps_same)

lemma storeInv_wf: "storeInv n s \<Longrightarrow> wf_grid (viewNew s) n"
  by (simp add: storeInv_def)

lemma sok_refl: "storeInv n s \<Longrightarrow> sok n s s"
  by (simp add: sok_def gkeeps_refl storeInv_wf)

lemma sok_trans: "sok n s s' \<Longrightarrow> sok n s' s'' \<Longrightarrow> sok n s s''"
  unfolding sok_def by (blast intro: gkeeps_trans gkeeps_mono)

lemma sok_inv: "sok n s s' \<Longrightarrow> storeInv n s'"
  by (simp add: sok_def)

lemma sok_write:
  "storeInv n s \<Longrightarrow> gkeeps n (set (footprintLog s)) (viewNew s) g' \<Longrightarrow> sok n s (writeNew g' s)"
  by (simp add: sok_def storeInv_writeNew viewNew_writeNew gkeeps_wf)

lemma sok_mutate:
  "storeInv n s \<Longrightarrow> gkeeps n (set (footprintLog s)) (viewNew s) (f (viewNew s))
   \<Longrightarrow> sok n s (mutateNew f s)"
  by (simp add: mutateNew_def sok_write)

lemma sok_log: "storeInv n s \<Longrightarrow> sok n s (logFootprint placed s)"
  by (auto simp: sok_def gkeeps_refl storeInv_wf)

lemma sok_copyRow: "storeInv n s \<Longrightarrow> 0 \<le> y \<Longrightarrow> y < n \<Longrightarrow> sok n s (copyRow y s)"
  by (simp add: sok_def storeInv_copyRow viewNew_copyRow gkeeps_refl storeInv_wf)

lemma sok_fields [simp]:
  "sok n s (s'\<lparr>drawCount := k\<rparr>) = sok n s s'"
  "sok n s (s'\<lparr>visitedBuf := v\<rparr>) = sok n s s'"
  "sok n s (drawn s') = sok n s s'"
  by (simp_all add: sok_def)

lemma sok_fold:
  assumes "\<And>a s'. a \<in> set as \<Longrightarrow> storeInv n s' \<Longrightarrow> sok n s' (f a s')" "storeInv n s"
  shows "sok n s (fold f as s)"
  using assms
proof (induction as arbitrary: s)
  case Nil
  then show ?case by (simp add: sok_refl)
next
  case (Cons a as)
  have 1: "sok n s (f a s)" using Cons.prems by simp
  have 2: "sok n (f a s) (fold f as (f a s))"
    using Cons.prems sok_inv[OF 1] by (intro Cons.IH) auto
  show ?case using sok_trans[OF 1 2] by simp
qed

lemma curTile_fields [simp]:
  "curTile (s\<lparr>drawCount := k\<rparr>) = curTile s"
  "curTile (s\<lparr>visitedBuf := v\<rparr>) = curTile s"
  "curTile (drawn s) = curTile s"
  "curTile (logFootprint placed s) = curTile s"
  by (simp_all add: curTile_def fun_eq_iff)

section \<open>Construction progress: grids and the first steps of a tile\<close>

lemma gkeeps_fold:
  assumes "\<And>a g'. a \<in> set as \<Longrightarrow> wf_grid g' n \<Longrightarrow> gkeeps n X g' (f a g')" "wf_grid g n"
  shows "gkeeps n X g (fold f as g)"
  using assms
proof (induction as arbitrary: g)
  case Nil
  then show ?case by (simp add: gkeeps_refl)
next
  case (Cons a as)
  have 1: "gkeeps n X g (f a g)" using Cons.prems by simp
  have 2: "gkeeps n X (f a g) (fold f as (f a g))"
    using Cons.prems gkeeps_wf[OF 1] by (intro Cons.IH) auto
  show ?case using gkeeps_trans[OF 1 2] by simp
qed

lemma gkeeps_forBox:
  assumes "\<And>dy dx g'. a \<le> dy \<Longrightarrow> dy \<le> b \<Longrightarrow> c \<le> dx \<Longrightarrow> dx \<le> d \<Longrightarrow> wf_grid g' n
             \<Longrightarrow> gkeeps n X g' (body dy dx g')"
    and "wf_grid g n"
  shows "gkeeps n X g (forBox a b c d body g)"
  unfolding forBox_def
  by (intro gkeeps_fold assms) auto

lemma getBuildingSize_pos:
  "getBuildingSize ty = (w, h) \<Longrightarrow> 1 \<le> w \<and> 1 \<le> h"
  unfolding getBuildingSize_def BUILDING_SIZES_def
  by (simp split: if_splits)

lemma speed_nonneg:
  assumes "getConstructionSpeed rnd k ty = (speed, k')" "0 \<le> rnd k"
  shows "0 \<le> speed"
proof -
  obtain w h where wh: "getBuildingSize ty = (w, h)" by (cases "getBuildingSize ty")
  have "1 \<le> w" "1 \<le> h" using getBuildingSize_pos[OF wh] by simp_all
  then have "0 \<le> real_of_int w * real_of_int h" by simp
  then have "0 \<le> (24 + rnd k * 12) / sqrt (real_of_int (w * h)) / 1.3"
    using assms(2) by (intro divide_nonneg_nonneg add_nonneg_nonneg mult_nonneg_nonneg) simp_all
  then show ?thesis using assms(1) by (simp add: getConstructionSpeed_def wh Let_def)
qed

lemma sok_first:
  assumes "storeInv n s" "0 \<le> x" "0 \<le> y"
  shows "sok n s (mutateNew (\<lambda>g. modBuilding g x y (\<lambda>b. b\<lparr>powered := pw, watered := wt\<rparr>)) s)"
  using assms by (intro sok_mutate gkeeps_modBuilding storeInv_wf) simp_all

lemma sok_constructStep:
  assumes inv: "storeInv n s" and x: "0 \<le> x" and y: "0 \<le> y" and rnd: "\<forall>i. 0 \<le> rnd i"
  shows "sok n s (constructStep rnd x y s)"
proof -
  obtain speed k' where sp: "getConstructionSpeed rnd (drawCount s) (btype (building (curTile s x y))) = (speed, k')"
    by (cases "getConstructionSpeed rnd (drawCount s) (btype (building (curTile s x y)))")
  have nn: "0 \<le> speed" using speed_nonneg[OF sp] rnd by simp
  have up: "sok n s (mutateNew (\<lambda>g. modBuilding g x y
               (\<lambda>b. b\<lparr>constructionProgress := Some (min 100 (the (constructionProgress b) + speed))\<rparr>)) s)"
    if "case constructionProgress (building (curTile s x y)) of Some p \<Rightarrow> p < 100 | None \<Rightarrow> False"
  proof -
    from that obtain p where p: "constructionProgress (building (curTile s x y)) = Some p" "p < 100"
      by (auto split: option.splits)
    show ?thesis
      unfolding modBuilding_def
    proof (intro sok_mutate gkeeps_updTile storeInv_wf inv x y)
      show "keeps ((x, y) \<in> set (footprintLog s)) (getTile (viewNew s) x y)
             (getTile (viewNew s) x y\<lparr>building := building (getTile (viewNew s) x y)
                \<lparr>constructionProgress := Some (min 100 (the (constructionProgress (building (getTile (viewNew s) x y))) + speed))\<rparr>\<rparr>)"
        using p nn by (intro keeps_up[where p = p and p' = "min 100 (p + speed)"]) (simp_all add: curTile_def)
    qed
  qed
  show ?thesis
    unfolding constructStep_def Let_def
    using up sok_refl[OF inv] by (simp add: sp)
qed

lemma sok_orphanStep:
  assumes "storeInv n s" "0 \<le> x" "0 \<le> y"
  shows "sok n s (orphanStep sz x y pw wt s)"
proof -
  have "sok n s (mutateNew (\<lambda>g. setBuilding g x y
             ((createBuilding ''grass'')\<lparr>powered := pw, watered := wt\<rparr>)) s)"
    using assms
    by (intro sok_mutate gkeeps_setBuilding storeInv_wf keeps_new[where p' = 100]) simp_all
  then show ?thesis
    using sok_refl[OF assms(1)] by (simp add: orphanStep_def)
qed

lemma gkeeps_applyBuildingFootprint:
  assumes wf: "wf_grid g n" and ox: "0 \<le> ox" and oy: "0 \<le> oy" and z: "(ox, oy) \<in> X"
  shows "gkeeps n X g (applyBuildingFootprint T g ox oy ty z lvl sv)"
proof -
  obtain w h where wh: "getBuildingSize ty = (w, h)" by (cases "getBuildingSize ty")
  obtain p where p: "constructionProgress (createBuilding ty) = Some p" "p \<le> 100"
    using createBuilding_progress by blast
  show ?thesis
    unfolding applyBuildingFootprint_def wh prod.case Let_def
  proof (intro gkeeps_forBox wf gkeeps_updTile)
    fix dy dx :: int and g' :: Grid
    assume "0 \<le> dy" "0 \<le> dx"
    then show "0 \<le> ox + dx" "0 \<le> oy + dy" using ox oy by simp_all
  next
    fix dy dx :: int and g' :: Grid
    show "keeps ((ox + dx, oy + dy) \<in> X) (getTile g' (ox + dx) (oy + dy))
           (getTile g' (ox + dx) (oy + dy)\<lparr>
              building :=
                (if dx = 0 \<and> dy = 0
                 then (case sv of
                         Some sv \<Rightarrow> (createBuilding ty)\<lparr>level := lvl, age := 0,
                             powered := get2 (powerCov sv) (ox + dx) (oy + dy),
                             watered := get2 (waterCov sv) (ox + dx) (oy + dy)\<rparr>
                       | None \<Rightarrow> (createBuilding ty)\<lparr>level := lvl, age := 0\<rparr>)
                 else (createBuilding ''empty'')\<lparr>level := 0\<rparr>),
              zone := z,
              pollution := (if dx = 0 \<and> dy = 0
                            then statsPollution (case BUILDING_STATS T ty of
                                   Some s \<Rightarrow> s
                                 | None \<Rightarrow> \<lparr> maxPop = 0, maxJobs = 0, statsPollution = 0, statsLandValue = 0,
                                             statsPollutionType = None \<rparr>)
                            else 0)\<rparr>)"
    proof (cases "dx = 0 \<and> dy = 0")
      case True
      then show ?thesis using p z
        by (intro keeps_new[where p' = p]) (simp_all split: option.splits)
    next
      case False
      then show ?thesis
        by (intro keeps_new[where p' = 100]) auto
    qed
  qed
qed

lemma sok_copyRows:
  assumes "storeInv n s" "0 \<le> y"
  shows "sok n s (copyRows n y h s)"
  unfolding copyRows_def
proof (intro sok_fold assms)
  fix a s' assume a: "a \<in> set [0..h - 1]" and inv: "storeInv n s'"
  then have "0 \<le> y + a" using assms(2) by simp
  then show "sok n s' (if y + a < n then copyRow (y + a) s' else s')"
    using inv by (simp add: sok_copyRow sok_refl)
qed

section \<open>Construction progress: consolidation\<close>

lemma findFootprint_nonneg:
  assumes "findFootprintIncludingTile g x y w h z gsz allow = Some (fx, fy)"
  shows "0 \<le> fx \<and> 0 \<le> fy"
proof -
  define cands where "cands =
     concat (map (\<lambda>oy. concat (map (\<lambda>ox.
              if \<not> footprintAvailable g ox oy w h z gsz (Some (x, y)) allow
              then []
              else if x < ox \<or> x \<ge> ox + w \<or> y < oy \<or> y \<ge> oy + h then []
              else [(ox, oy, scoreFootprint g ox oy w h gsz)])
              [x - (w - 1)..x])) [y - (h - 1)..y])"
  from assms obtain sc rest where
    "sort_key (\<lambda>(ox, oy, score). - score) cands = (fx, fy, sc) # rest"
    unfolding findFootprintIncludingTile_def Let_def cands_def[symmetric]
    by (auto split: list.splits)
  then have "(fx, fy, sc) \<in> set (sort_key (\<lambda>(ox, oy, score). - score) cands)" by simp
  then have "(fx, fy, sc) \<in> set cands" by simp
  then have "footprintAvailable g fx fy w h z gsz (Some (x, y)) allow"
    unfolding cands_def by (auto split: if_splits)
  then show ?thesis by (auto simp: footprintAvailable_def split: if_splits)
qed

lemma gk_mod_after:
  assumes "gkeeps n X g g4" "0 \<le> ax" "0 \<le> ay" "\<And>b. constructionProgress (F b) = constructionProgress b"
  shows "gkeeps n X g (modBuilding g4 ax ay F)"
  using assms(1) by (rule gkeeps_trans) (intro gkeeps_modBuilding gkeeps_wf[OF assms(1)] assms)

lemma gk_foot_after:
  assumes "gkeeps n X g g3" "0 \<le> fx" "0 \<le> fy" "(fx, fy) \<in> X"
  shows "gkeeps n X g (applyBuildingFootprint T g3 fx fy ty z lvl sv)"
  using assms(1) by (rule gkeeps_trans) (intro gkeeps_applyBuildingFootprint gkeeps_wf[OF assms(1)] assms)

lemma gk_set_after:
  assumes "gkeeps n X g g4" "0 \<le> x" "0 \<le> y"
    "x < n \<Longrightarrow> y < n \<Longrightarrow> keeps ((x, y) \<in> X) (getTile g4 x y) ((getTile g4 x y)\<lparr>building := b\<rparr>)"
  shows "gkeeps n X g (setBuilding g4 x y b)"
  using assms(1) by (rule gkeeps_trans) (intro gkeeps_setBuilding gkeeps_wf[OF assms(1)] assms)

lemma wf_setBuilding: "wf_grid g n \<Longrightarrow> wf_grid (setBuilding g x y b) n"
  by (simp add: setBuilding_def wf_updTile)

lemma wf_modBuilding: "wf_grid g n \<Longrightarrow> wf_grid (modBuilding g x y f) n"
  by (simp add: modBuilding_def wf_updTile)

lemma getTile_setBuilding_same:
  "wf_grid g n \<Longrightarrow> 0 \<le> x \<Longrightarrow> x < n \<Longrightarrow> 0 \<le> y \<Longrightarrow> y < n
   \<Longrightarrow> getTile (setBuilding g x y b) x y = (getTile g x y)\<lparr>building := b\<rparr>"
  by (simp add: setBuilding_def getTile_updTile)

lemma getTile_modBuilding_same:
  "wf_grid g n \<Longrightarrow> 0 \<le> x \<Longrightarrow> x < n \<Longrightarrow> 0 \<le> y \<Longrightarrow> y < n
   \<Longrightarrow> getTile (modBuilding g x y f) x y = (getTile g x y)\<lparr>building := f (building (getTile g x y))\<rparr>"
  by (simp add: modBuilding_def getTile_updTile)

lemma setBuilding_same:
  assumes "wf_grid g n" "0 \<le> x" "0 \<le> y"
  shows "gkeeps n X g (setBuilding g x y (building (getTile g x y)))"
  using assms by (intro gkeeps_setBuilding keeps_same) simp_all

lemma gkeeps_consolidate:
  assumes k: "gkeeps n X g g3" and x: "0 \<le> x" and y: "0 \<le> y" and z: "set_option placed \<subseteq> X"
    and c: "consolidate T g3 x y z sv lv tt allow = (g4, ax, ay, placed)"
  shows "gkeeps n X g g4 \<and> 0 \<le> ax \<and> 0 \<le> ay"
proof -
  obtain w h where wh: "getBuildingSize tt = (w, h)" by (cases "getBuildingSize tt")
  show ?thesis
  proof (cases "findFootprintIncludingTile g3 x y w h z (int (length g3)) allow")
    case None
    with c have "ax = x" "ay = y"
      and g4: "g4 = (if lv > int (level (building (getTile g3 x y)))
                    then modBuilding g3 x y (\<lambda>b. b\<lparr>level := nat (min lv (int (level b) + 1))\<rparr>)
                    else g3)"
      by (auto simp: consolidate_def wh)
    moreover have "gkeeps n X g (modBuilding g3 x y (\<lambda>b. b\<lparr>level := nat (min lv (int (level b) + 1))\<rparr>))"
      using k x y by (intro gk_mod_after) simp_all
    ultimately show ?thesis using k x y by simp
  next
    case (Some f)
    obtain fx fy where f: "f = (fx, fy)" by (cases f)
    from c Some f have r: "ax = fx" "ay = fy" "placed = Some (fx, fy)"
      "g4 = applyBuildingFootprint T g3 fx fy tt z (nat lv) (Some sv)"
      by (auto simp: consolidate_def wh)
    have nn: "0 \<le> fx" "0 \<le> fy" using findFootprint_nonneg[OF Some[unfolded f]] by simp_all
    have "(fx, fy) \<in> X" using z r(3) by simp
    then show ?thesis unfolding r using k nn by (simp add: gk_foot_after)
  qed
qed

lemma gkeeps_settleAnchor:
  assumes "gkeeps n X g g4" "0 \<le> ax" "0 \<le> ay"
  shows "gkeeps n X g (settleAnchor T g4 ax ay sv lv)"
  unfolding settleAnchor_def
  using assms by (intro gk_mod_after) (simp_all add: Let_def)

lemma grow_shape:
  assumes "(case (if c then consolidate T g3 x y z sv lv tt allow else (g3, x, y, None)) of
              (g4, ax, ay, placed) \<Rightarrow>
                (building (getTile (settleAnchor T g4 ax ay sv lv') x y),
                 settleAnchor T g4 ax ay sv lv', k'', placed)) = (b, g5, k', pl)"
    and "gkeeps n X g1 g3" "0 \<le> x" "0 \<le> y" "set_option pl \<subseteq> X"
  shows "gkeeps n X g1 g5 \<and> b = building (getTile g5 x y)"
proof (cases c)
  case True
  obtain g4 ax ay placed where c: "consolidate T g3 x y z sv lv tt allow = (g4, ax, ay, placed)"
    by (cases "consolidate T g3 x y z sv lv tt allow") auto
  with assms(1) True have pl: "placed = pl" by simp
  from gkeeps_consolidate[OF assms(2-4) assms(5)[folded pl] c] assms(1) True c
  show ?thesis by (auto intro!: gkeeps_settleAnchor)
next
  case False
  with assms show ?thesis by (auto intro!: gkeeps_settleAnchor)
qed

lemma gkeeps_growBuilding:
  assumes wf: "wf_grid g1 n" and x: "0 \<le> x" and y: "0 \<le> y"
    and z: "set_option pl \<subseteq> X"
    and gr: "growBuilding T rnd g1 x y sv zd k = (b, g5, k', pl)"
  shows "gkeeps n X g1 g5 \<and> b = building (getTile g5 x y)"
proof -
  have r: "gkeeps n X g1 g1" using wf by (rule gkeeps_refl)
  have g3: "gkeeps n X g1 (modBuilding g1 x y (\<lambda>b. b\<lparr>age := age b + 1\<rparr>))"
    using r x y by (intro gk_mod_after) simp_all
  show ?thesis
    using gr unfolding growBuilding_def Let_def
    by (rule grow_shape[OF _ g3 x y z])
qed

section \<open>Construction progress: evolveBuilding\<close>

lemma setBuilding_twice:
  assumes "wf_grid g n" "0 \<le> x" "x < n" "0 \<le> y" "y < n"
  shows "setBuilding (setBuilding g x y a) x y b = setBuilding g x y b"
proof -
  have ly: "nat y < length g" using assms by (simp add: wf_grid_def)
  have lx: "nat x < length (g ! nat y)" using assms by (simp add: wf_grid_nth)
  show ?thesis
    using ly lx by (simp add: setBuilding_def updTile_def)
qed

lemma gkeeps_clearing:
  assumes wf: "wf_grid g1 n" and x: "0 \<le> x" and y: "0 \<le> y"
  shows "gkeeps n X g1 (forBox 0 (h - 1) 0 (w - 1)
           (\<lambda>dy dx g'. (case tileAt g' (x + dx) (y + dy) of
                Some clearTile \<Rightarrow>
                  setBuilding g' (x + dx) (y + dy)
                    ((createBuilding ''grass'')\<lparr>
                       powered := get2OrFalse (powerCov sv) (x + dx) (y + dy),
                       watered := get2OrFalse (waterCov sv) (x + dx) (y + dy)\<rparr>)
              | None \<Rightarrow> g')) g1)"
proof (intro gkeeps_forBox wf)
  fix dy dx :: int and g' :: Grid
  assume d: "0 \<le> dy" "0 \<le> dx" and wf': "wf_grid g' n"
  have "gkeeps n X g' (setBuilding g' (x + dx) (y + dy)
                    ((createBuilding ''grass'')\<lparr>
                       powered := get2OrFalse (powerCov sv) (x + dx) (y + dy),
                       watered := get2OrFalse (waterCov sv) (x + dx) (y + dy)\<rparr>))"
    using wf' x y d by (intro gkeeps_setBuilding keeps_new[where p' = 100]) simp_all
  then show "gkeeps n X g' (case tileAt g' (x + dx) (y + dy) of
                Some clearTile \<Rightarrow>
                  setBuilding g' (x + dx) (y + dy)
                    ((createBuilding ''grass'')\<lparr>
                       powered := get2OrFalse (powerCov sv) (x + dx) (y + dy),
                       watered := get2OrFalse (waterCov sv) (x + dx) (y + dy)\<rparr>)
              | None \<Rightarrow> g')"
    using wf' by (simp add: gkeeps_refl split: option.splits)
qed

lemma gkeeps_evolveBuilding:
  assumes wf: "wf_grid g n" and x: "0 \<le> x" "x < n" and y: "0 \<le> y" "y < n"
    and rnd: "\<forall>i. 0 \<le> rnd i"
    and pl: "set_option pl \<subseteq> X"
    and ev: "evolveBuilding T rnd g x y sv dem k = (b, g', k', pl)"
  shows "gkeeps n X g (setBuilding g' x y b)"
proof -
  let ?t = "getTile g x y"
  let ?b = "building ?t"
  let ?b1 = "?b\<lparr>powered := get2 (powerCov sv) x y, watered := get2 (waterCov sv) x y\<rparr>"
  let ?g1 = "setBuilding g x y ?b1"
  let ?zd = "zoneDemand dem (zone ?t)"
  have wf1: "wf_grid ?g1 n" using wf by (rule wf_setBuilding)
  have k1: "gkeeps n X g ?g1"
    using wf x y by (intro gkeeps_setBuilding keeps_same) simp_all
  have t1: "getTile ?g1 x y = ?t\<lparr>building := ?b1\<rparr>"
    using wf x y by (rule getTile_setBuilding_same)
  have twice: "setBuilding (setBuilding g x y a) x y c = setBuilding g x y c" for a c
    using wf x y by (rule setBuilding_twice)
  have same: "gkeeps n X g (setBuilding g x y c)"
    if "constructionProgress c = constructionProgress ?b" for c
    using wf x y that by (intro gkeeps_setBuilding keeps_same) simp_all
  have fin: "gkeeps n X g (setBuilding g' x y b)"
    if "g' = setBuilding g x y b \<or> g' = setBuilding ?g1 x y b"
      "constructionProgress b = constructionProgress ?b"
    using that same[OF that(2)] by (auto simp: twice)
  show ?thesis
  proof (cases "zone ?t = zone_none \<or> btype ?b = ''grass'' \<or> btype ?b = ''water''
                \<or> btype ?b = ''road'' \<or> btype ?b = ''bridge''")
    case True
    have "b = ?b \<and> g' = g"
      using ev unfolding evolveBuilding_def Let_def
      by (simp only: True[THEN eqTrueI] if_True) auto
    then show ?thesis using same by simp
  next
    case False
    then have c1: "(zone ?t = zone_none \<or> btype ?b = ''grass'' \<or> btype ?b = ''water''
                \<or> btype ?b = ''road'' \<or> btype ?b = ''bridge'') = False" by simp
    show ?thesis
    proof (cases "btype ?b = ''empty''")
      case True
      have "g' = setBuilding g x y b \<and> constructionProgress b = constructionProgress ?b"
        using ev unfolding evolveBuilding_def Let_def
        by (simp only: c1 True[THEN eqTrueI] if_True if_False) auto
      then show ?thesis using fin by blast
    next
      case False
      then have c2: "(btype ?b = ''empty'') = False" by simp
      show ?thesis
      proof (cases "\<not> isStarterBuilding x y (btype ?b1) \<and> (\<not> powered ?b1 \<or> \<not> watered ?b1)")
        case True
        have "g' = ?g1 \<and> b = ?b1"
          using ev unfolding evolveBuilding_def Let_def
          by (simp only: c1 c2 True[THEN eqTrueI] if_True if_False) auto
        then have "g' = setBuilding g x y b" "constructionProgress b = constructionProgress ?b"
          by simp_all
        then show ?thesis using fin by blast
      next
        case False
        then have c3: "(\<not> isStarterBuilding x y (btype ?b1) \<and> (\<not> powered ?b1 \<or> \<not> watered ?b1)) = False"
          by blast
        show ?thesis
        proof (cases "case constructionProgress ?b1 of Some p \<Rightarrow> p < 100 | None \<Rightarrow> False")
          case True
          then obtain p where p: "constructionProgress ?b = Some p" "p < 100"
            by (auto split: option.splits)
          obtain speed k2 where sp: "getConstructionSpeed rnd k (btype ?b1) = (speed, k2)"
            by (cases "getConstructionSpeed rnd k (btype ?b1)")
          have nn: "0 \<le> speed" using speed_nonneg[OF sp] rnd by simp
          have "g' = setBuilding ?g1 x y b \<and> constructionProgress b = Some (min 100 (p + speed))"
            using ev unfolding evolveBuilding_def Let_def
            by (simp only: c1 c2 c3 True[THEN eqTrueI] sp prod.case if_True if_False) (use p in auto)
          then have g': "g' = setBuilding ?g1 x y b"
            and b: "constructionProgress b = Some (min 100 (p + speed))" by blast+
          have "gkeeps n X g (setBuilding g x y b)"
            using wf x y p nn b
            by (intro gkeeps_setBuilding keeps_up[where p = p and p' = "min 100 (p + speed)"]) simp_all
          then show ?thesis by (simp add: g' twice)
        next
          case False
          then have c4: "(case constructionProgress ?b1 of Some p \<Rightarrow> p < 100 | None \<Rightarrow> False) = False"
            by simp
          show ?thesis
          proof (cases "abandoned ?b1")
            case True
            show ?thesis
            proof (cases "?zd > 10 \<and> rnd k < min 0.12 ((?zd - 10) / 600)")
              case clear: True
              obtain w h where wh: "getBuildingSize (btype ?b1) = (w, h)"
                by (cases "getBuildingSize (btype ?b1)")
              have "constructionProgress b = Some 100 \<and> (g' = ?g1 \<or> g' = forBox 0 (h - 1) 0 (w - 1)
                     (\<lambda>dy dx g'. (case tileAt g' (x + dx) (y + dy) of
                          Some clearTile \<Rightarrow>
                            setBuilding g' (x + dx) (y + dy)
                              ((createBuilding ''grass'')\<lparr>
                                 powered := get2OrFalse (powerCov sv) (x + dx) (y + dy),
                                 watered := get2OrFalse (waterCov sv) (x + dx) (y + dy)\<rparr>)
                        | None \<Rightarrow> g')) ?g1)"
                using ev unfolding evolveBuilding_def Let_def
                by (simp only: c1 c2 c3 c4 True[THEN eqTrueI] clear[THEN eqTrueI] wh prod.case if_True if_False)
                   (auto split: if_splits)
              then have b: "constructionProgress b = Some 100" and "gkeeps n X ?g1 g'"
                using gkeeps_clearing[OF wf1 x(1) y(1)] gkeeps_refl[OF wf1] by auto
              then have "gkeeps n X g g'" using k1 gkeeps_trans by blast
              then show ?thesis
                using x y b by (intro gk_set_after keeps_new[where p' = 100]) simp_all
            next
              case False
              then have c6: "(?zd > 10 \<and> rnd k < min 0.12 ((?zd - 10) / 600)) = False" by simp
              have "g' = setBuilding ?g1 x y b \<and> constructionProgress b = constructionProgress ?b"
                using ev unfolding evolveBuilding_def Let_def
                by (simp only: c1 c2 c3 c4 True[THEN eqTrueI] c6 if_True if_False) auto
              then show ?thesis using fin by blast
            qed
          next
            case False
            then have c5: "abandoned ?b1 = False" by simp
            show ?thesis
            proof (cases "(?zd < - 20 \<and> age ?b1 > 30)
                \<and> rnd k < min 0.02 (\<bar>?zd + 20\<bar> / 4000)
                    + (if isStarterBuilding x y (btype ?b1) then 0
                       else (if \<not> powered ?b1 then 0.005 else 0)
                            + (if \<not> watered ?b1 then 0.005 else 0))
                    + (if level ?b1 \<le> 2 then 0.003 else 0)")
              case True
              have "g' = setBuilding ?g1 x y b \<and> constructionProgress b = constructionProgress ?b"
                using ev unfolding evolveBuilding_def Let_def
                by (simp only: c1 c2 c3 c4 c5 True[THEN eqTrueI] if_True if_False) auto
              then show ?thesis using fin by blast
            next
              case False
              then have c7: "((?zd < - 20 \<and> age ?b1 > 30)
                \<and> rnd k < min 0.02 (\<bar>?zd + 20\<bar> / 4000)
                    + (if isStarterBuilding x y (btype ?b1) then 0
                       else (if \<not> powered ?b1 then 0.005 else 0)
                            + (if \<not> watered ?b1 then 0.005 else 0))
                    + (if level ?b1 \<le> 2 then 0.003 else 0)) = False" by (rule eq_False[THEN iffD2])
              have "growBuilding T rnd ?g1 x y sv ?zd
                      (if ?zd < - 20 \<and> age ?b1 > 30 then Suc k else k) = (b, g', k', pl)"
                using ev unfolding evolveBuilding_def Let_def
                by (simp only: c1 c2 c3 c4 c5 c7 if_True if_False)
              then have 5: "gkeeps n X ?g1 g'" "b = building (getTile g' x y)"
                using gkeeps_growBuilding[OF wf1 x(1) y(1) pl] by blast+
              have "gkeeps n X g' (setBuilding g' x y b)"
                unfolding 5(2) using gkeeps_wf[OF 5(1)] x y by (intro setBuilding_same) simp_all
              then show ?thesis using k1 5(1) gkeeps_trans by blast
            qed
          qed
        qed
      qed
    qed
  qed
qed

section \<open>Construction progress: the steps of a tile\<close>

lemma sok_upd:
  assumes "storeInv n s" "0 \<le> x" "0 \<le> y" "\<And>t e. keeps e t (f t)"
  shows "sok n s (mutateNew (\<lambda>g. updTile g x y f) s)"
  using assms by (intro sok_mutate gkeeps_updTile storeInv_wf) simp_all

lemma sok_mod:
  assumes "storeInv n s" "0 \<le> x" "0 \<le> y" "\<And>b. constructionProgress (f b) = constructionProgress b"
  shows "sok n s (mutateNew (\<lambda>g. modBuilding g x y f) s)"
  using assms by (intro sok_mutate gkeeps_modBuilding storeInv_wf) simp_all

lemma sok_if: "(c \<Longrightarrow> sok n s a) \<Longrightarrow> (\<not> c \<Longrightarrow> sok n s b) \<Longrightarrow> sok n s (if c then a else b)"
  by simp

lemma sok_developStep:
  assumes inv: "storeInv n s" and x: "0 \<le> x" "x < n" and y: "0 \<le> y" "y < n"
    and rnd: "\<forall>i. 0 \<le> rnd i"
  shows "sok n s (developStep T rnd dem sv n x y pw wt s)"
proof -
  let ?tile = "curTile s x y"
  have spawn: "sok n s (mutateNew (\<lambda>g. applyBuildingFootprint T g x y cand z lv (Some sv))
                 (logFootprint (Some (x, y)) (copyRows n y h (drawn (s\<lparr>visitedBuf := v\<rparr>)))))"
    for cand h v z lv
  proof -
    let ?c = "copyRows n y h (drawn (s\<lparr>visitedBuf := v\<rparr>))"
    have i1: "storeInv n (drawn (s\<lparr>visitedBuf := v\<rparr>))" using inv by simp
    have 1: "sok n s (drawn (s\<lparr>visitedBuf := v\<rparr>))" using inv by (simp add: sok_refl)
    have 2: "sok n (drawn (s\<lparr>visitedBuf := v\<rparr>)) ?c"
      using i1 y(1) by (rule sok_copyRows)
    have 3: "sok n ?c (logFootprint (Some (x, y)) ?c)"
      using sok_inv[OF 2] by (rule sok_log)
    have 4: "sok n (logFootprint (Some (x, y)) ?c)
               (mutateNew (\<lambda>g. applyBuildingFootprint T g x y cand z lv (Some sv))
                 (logFootprint (Some (x, y)) ?c))"
      using sok_inv[OF 3] x y
      by (intro sok_mutate gkeeps_applyBuildingFootprint storeInv_wf) simp_all
    show ?thesis using sok_trans[OF 1 sok_trans[OF 2 sok_trans[OF 3 4]]] .
  qed
  have evolve: "sok n s ((writeNew (setBuilding g' x y b) (logFootprint pl s))\<lparr>drawCount := k'\<rparr>)"
    if "evolveBuilding T rnd (viewNew s) x y sv dem (drawCount s) = (b, g', k', pl)" for b g' k' pl
  proof -
    have l: "sok n s (logFootprint pl s)" using inv by (rule sok_log)
    have "set_option pl \<subseteq> set (footprintLog (logFootprint pl s))" by (cases pl) simp_all
    from gkeeps_evolveBuilding[OF storeInv_wf[OF inv] x y rnd this that]
    have "gkeeps n (set (footprintLog (logFootprint pl s))) (viewNew (logFootprint pl s))
            (setBuilding g' x y b)" by simp
    then have "sok n (logFootprint pl s) (writeNew (setBuilding g' x y b) (logFootprint pl s))"
      using sok_inv[OF l] by (intro sok_write)
    from sok_trans[OF l this] show ?thesis by simp
  qed
  show ?thesis
  proof (cases "zone ?tile \<noteq> zone_none \<and> btype (building ?tile) = ''grass''")
    case True
    obtain ra v where h: "hasRoadAccess (viewNew s) x y n DEFAULT_MAX_DISTANCE (visitedBuf s) = (ra, v)"
      by (cases "hasRoadAccess (viewNew s) x y n DEFAULT_MAX_DISTANCE (visitedBuf s)")
    have plain: "sok n s (s\<lparr>visitedBuf := v\<rparr>)" "sok n s (drawn (s\<lparr>visitedBuf := v\<rparr>))"
      using inv by (simp_all add: sok_refl)
    have zn: "zone ?tile \<noteq> zone_none" using True by simp
    obtain w h where wh: "getBuildingSize (listAt (if zone ?tile = residential then RESIDENTIAL_BUILDINGS T
                                     else if zone ?tile = commercial then COMMERCIAL_BUILDINGS T
                                     else INDUSTRIAL_BUILDINGS T) 0) = (w, h)"
      by (cases "getBuildingSize (listAt (if zone ?tile = residential then RESIDENTIAL_BUILDINGS T
                                     else if zone ?tile = commercial then COMMERCIAL_BUILDINGS T
                                     else INDUSTRIAL_BUILDINGS T) 0)")
    show ?thesis
      unfolding developStep_def Let_def
      by (simp only: True[THEN eqTrueI] if_True h prod.case wh)
         (intro sok_if spawn plain)
  next
    case False
    then have c: "(zone ?tile \<noteq> zone_none \<and> btype (building ?tile) = ''grass'') = False" by simp
    show ?thesis
    proof (cases "zone ?tile \<noteq> zone_none \<and> btype (building ?tile) \<noteq> ''grass''")
      case True
      obtain b g' k' pl where e: "evolveBuilding T rnd (viewNew s) x y sv dem (drawCount s) = (b, g', k', pl)"
        using prod_cases4 by blast
      show ?thesis
        unfolding developStep_def Let_def
        using evolve[OF e]
        by (simp only: c True[THEN eqTrueI] if_True if_False e prod.case)
    next
      case False
      then have c': "(zone ?tile \<noteq> zone_none \<and> btype (building ?tile) \<noteq> ''grass'') = False" by simp
      show ?thesis
        unfolding developStep_def Let_def
        using sok_refl[OF inv]
        by (simp only: c c' if_False)
    qed
  qed
qed

lemma sok_emitStep:
  assumes "storeInv n s" "0 \<le> x" "0 \<le> y"
  shows "sok n s (emitStep T x y s)"
  unfolding emitStep_def
  using assms
  by (auto split: option.splits simp: sok_refl Let_def intro!: sok_upd keeps_same)

lemma sok_decayStep:
  assumes "storeInv n s" "0 \<le> x" "0 \<le> y"
  shows "sok n s (decayStep x y s)"
  unfolding decayStep_def
  using assms by (intro sok_upd keeps_same) simp_all

lemma sok_scrubStep:
  assumes inv: "storeInv n s" and x: "0 \<le> x" and y: "0 \<le> y"
  shows "sok n s (scrubStep x y s)"
proof (cases "btype (building (curTile s x y)) = ''water_tower''")
  case True
  let ?s0 = "mutateNew (\<lambda>g. updTile g x y (\<lambda>t. t\<lparr>pollution := 0\<rparr>)) s"
  have 0: "sok n s ?s0" using inv x y by (intro sok_upd keeps_same) simp_all
  have "sok n ?s0 (fold (\<lambda>(cdx, cdy) s'.
                   (case tileAt (viewNew s') (x + cdx) (y + cdy) of
                      Some n \<Rightarrow> mutateNew (\<lambda>g. updTile g (x + cdx) (y + cdy)
                                  (\<lambda>t. t\<lparr>pollution := max 0 (pollution t - 5)\<rparr>)) s'
                    | None \<Rightarrow> s'))
             [(0, 1), (0, - 1), (1, 0), (- 1, 0), (1, 1), (- 1, - 1), (1, - 1), (- 1, 1)] ?s0)"
  proof (rule sok_fold[OF _ sok_inv[OF 0]])
    fix a :: "int \<times> int" and s'
    assume inv': "storeInv n s'"
    obtain cdx cdy where a: "a = (cdx, cdy)" by (cases a)
    show "sok n s' ((case a of (cdx, cdy) \<Rightarrow> \<lambda>s'.
                   (case tileAt (viewNew s') (x + cdx) (y + cdy) of
                      Some n \<Rightarrow> mutateNew (\<lambda>g. updTile g (x + cdx) (y + cdy)
                                  (\<lambda>t. t\<lparr>pollution := max 0 (pollution t - 5)\<rparr>)) s'
                    | None \<Rightarrow> s')) s')"
    proof (cases "tileAt (viewNew s') (x + cdx) (y + cdy)")
      case None
      then show ?thesis using inv' by (simp add: a sok_refl)
    next
      case (Some t)
      then have "0 \<le> x + cdx" "0 \<le> y + cdy"
        using tileAt_wf[OF storeInv_wf[OF inv'], of "x + cdx" "y + cdy"] by (auto split: if_splits)
      then have "sok n s' (mutateNew (\<lambda>g. updTile g (x + cdx) (y + cdy)
                                  (\<lambda>t. t\<lparr>pollution := max 0 (pollution t - 5)\<rparr>)) s')"
        using inv' by (intro sok_upd keeps_same) simp_all
      then show ?thesis by (simp add: a Some)
    qed
  qed
  with 0 have "sok n s (fold (\<lambda>(cdx, cdy) s'.
                   (case tileAt (viewNew s') (x + cdx) (y + cdy) of
                      Some n \<Rightarrow> mutateNew (\<lambda>g. updTile g (x + cdx) (y + cdy)
                                  (\<lambda>t. t\<lparr>pollution := max 0 (pollution t - 5)\<rparr>)) s'
                    | None \<Rightarrow> s'))
             [(0, 1), (0, - 1), (1, 0), (- 1, 0), (1, 1), (- 1, - 1), (1, - 1), (- 1, 1)] ?s0)"
    by (rule sok_trans)
  then show ?thesis using True by (simp add: scrubStep_def)
next
  case False
  then show ?thesis using inv by (simp add: scrubStep_def sok_refl)
qed

lemma sok_spreadStep:
  assumes inv: "storeInv n s" and x: "0 \<le> x" and y: "0 \<le> y"
  shows "sok n s (spreadStep rnd n x y s)"
proof (cases "pollution (curTile s x y) > 30")
  case True
  have "sok n s (fold (\<lambda>(dx, dy) s'.
                  (let nx = x + dx; ny = y + dy
                   in if nx \<ge> 0 \<and> nx < n \<and> ny \<ge> 0 \<and> ny < n
                      then (let s1 = copyRow ny s'; tile = curTile s1 x y; neighbor = curTile s1 nx ny
                            in if btype (building neighbor) = ''water''
                               then mutateNew (\<lambda>g. updTile g nx ny
                                      (\<lambda>t. t\<lparr>pollution := min 100 (pollution t + amount),
                                              pollutionType := pollutionType tile\<rparr>)) s1
                               else if pollution neighbor < pollution tile
                               then mutateNew (\<lambda>g. updTile g nx ny
                                      (\<lambda>t. (let t' = t\<lparr>pollution := min 100 (pollution t + amount * 0.1)\<rparr>
                                             in if draw rnd s1 > 0.5
                                                then t'\<lparr>pollutionType := pollutionType tile\<rparr> else t')))
                                      (drawn s1)
                               else s1)
                      else s'))
               [(0, 1), (0, - 1), (1, 0), (- 1, 0)] s)" for amount
  proof (rule sok_fold[OF _ inv])
    fix a :: "int \<times> int" and s'
    assume inv': "storeInv n s'"
    obtain dx dy where a: "a = (dx, dy)" by (cases a)
    show "sok n s' ((case a of (dx, dy) \<Rightarrow> \<lambda>s'.
                  (let nx = x + dx; ny = y + dy
                   in if nx \<ge> 0 \<and> nx < n \<and> ny \<ge> 0 \<and> ny < n
                      then (let s1 = copyRow ny s'; tile = curTile s1 x y; neighbor = curTile s1 nx ny
                            in if btype (building neighbor) = ''water''
                               then mutateNew (\<lambda>g. updTile g nx ny
                                      (\<lambda>t. t\<lparr>pollution := min 100 (pollution t + amount),
                                              pollutionType := pollutionType tile\<rparr>)) s1
                               else if pollution neighbor < pollution tile
                               then mutateNew (\<lambda>g. updTile g nx ny
                                      (\<lambda>t. (let t' = t\<lparr>pollution := min 100 (pollution t + amount * 0.1)\<rparr>
                                             in if draw rnd s1 > 0.5
                                                then t'\<lparr>pollutionType := pollutionType tile\<rparr> else t')))
                                      (drawn s1)
                               else s1)
                      else s')) s')"
    proof (cases "x + dx \<ge> 0 \<and> x + dx < n \<and> y + dy \<ge> 0 \<and> y + dy < n")
      case False
      then show ?thesis using inv' by (auto simp: a Let_def sok_refl)
    next
      case True
      let ?s1 = "copyRow (y + dy) s'"
      have 1: "sok n s' ?s1" using inv' True by (intro sok_copyRow) simp_all
      have i1: "storeInv n ?s1" "storeInv n (drawn ?s1)" using sok_inv[OF 1] by simp_all
      have 2: "sok n ?s1 (mutateNew (\<lambda>g. updTile g (x + dx) (y + dy) f) st)"
        if "\<And>t e. keeps e t (f t)" "st = ?s1 \<or> st = drawn ?s1" for f st
      proof -
        have "sok n st (mutateNew (\<lambda>g. updTile g (x + dx) (y + dy) f) st)"
          using that i1 True by (intro sok_upd) auto
        moreover have "sok n ?s1 st" using that(2) i1 by (auto simp: sok_refl)
        ultimately show ?thesis by (rule sok_trans[rotated])
      qed
      have "sok n ?s1 (let tile = curTile ?s1 x y; neighbor = curTile ?s1 (x + dx) (y + dy)
                            in if btype (building neighbor) = ''water''
                               then mutateNew (\<lambda>g. updTile g (x + dx) (y + dy)
                                      (\<lambda>t. t\<lparr>pollution := min 100 (pollution t + amount),
                                              pollutionType := pollutionType tile\<rparr>)) ?s1
                               else if pollution neighbor < pollution tile
                               then mutateNew (\<lambda>g. updTile g (x + dx) (y + dy)
                                      (\<lambda>t. (let t' = t\<lparr>pollution := min 100 (pollution t + amount * 0.1)\<rparr>
                                             in if draw rnd ?s1 > 0.5
                                                then t'\<lparr>pollutionType := pollutionType tile\<rparr> else t')))
                                      (drawn ?s1)
                               else ?s1)"
        using i1 by (auto simp: Let_def sok_refl intro!: 2 keeps_same)
      then have "sok n s' (let tile = curTile ?s1 x y; neighbor = curTile ?s1 (x + dx) (y + dy)
                            in if btype (building neighbor) = ''water''
                               then mutateNew (\<lambda>g. updTile g (x + dx) (y + dy)
                                      (\<lambda>t. t\<lparr>pollution := min 100 (pollution t + amount),
                                              pollutionType := pollutionType tile\<rparr>)) ?s1
                               else if pollution neighbor < pollution tile
                               then mutateNew (\<lambda>g. updTile g (x + dx) (y + dy)
                                      (\<lambda>t. (let t' = t\<lparr>pollution := min 100 (pollution t + amount * 0.1)\<rparr>
                                             in if draw rnd ?s1 > 0.5
                                                then t'\<lparr>pollutionType := pollutionType tile\<rparr> else t')))
                                      (drawn ?s1)
                               else ?s1)"
        using 1 by (rule sok_trans[rotated])
      then show ?thesis using True by (simp add: a Let_def)
    qed
  qed
  then show ?thesis using True by (simp add: spreadStep_def Let_def)
next
  case False
  then show ?thesis using inv by (simp add: spreadStep_def sok_refl)
qed

lemma sok_burnStep:
  assumes inv: "storeInv n s" and x: "0 \<le> x" and y: "0 \<le> y"
  shows "sok n s (burnStep rnd disasters sv x y s)"
proof -
  have i: "storeInv n (drawn s)" using inv by simp
  have 0: "sok n s (drawn s)" using inv by (simp add: sok_refl)
  have 1: "sok n s (mutateNew (\<lambda>g. modBuilding g x y (\<lambda>b. b\<lparr>onFire := False, fireProgress := 0\<rparr>)) (drawn s))"
    by (rule sok_trans[OF 0]) (use i x y in \<open>intro sok_mod\<close>, simp_all)
  have 2: "sok n s (mutateNew (\<lambda>g. updTile g x y
                      (\<lambda>t. (let b = (building t)\<lparr>fireProgress := fireProgress (building t) + 2 / 3\<rparr>
                             in if fireProgress b \<ge> 100
                                then t\<lparr>building := createBuilding ''grass'', zone := zone_none\<rparr>
                                else t\<lparr>building := b\<rparr>))) (drawn s))"
  proof (rule sok_trans[OF 0], intro sok_upd i x y)
    fix t :: Tile and e :: bool
    show "keeps e t (let b = (building t)\<lparr>fireProgress := fireProgress (building t) + 2 / 3\<rparr>
                             in if fireProgress b \<ge> 100
                                then t\<lparr>building := createBuilding ''grass'', zone := zone_none\<rparr>
                                else t\<lparr>building := b\<rparr>)"
      by (cases "100 \<le> fireProgress (building t) + 2 / 3")
        (auto simp: Let_def intro: keeps_same keeps_new[where p' = 100])
  qed
  show ?thesis
    unfolding burnStep_def Let_def using 1 2 sok_refl[OF inv] by auto
qed

lemma sok_igniteFromNeighborsStep:
  assumes inv: "storeInv n s" and x: "0 \<le> x" and y: "0 \<le> y"
  shows "sok n s (igniteFromNeighborsStep rnd disasters sv n x y s)"
proof -
  have i: "storeInv n (drawn s)" using inv by simp
  have 0: "sok n s (drawn s)" using inv by (simp add: sok_refl)
  have 1: "sok n s (mutateNew (\<lambda>g. modBuilding g x y (\<lambda>b. b\<lparr>onFire := True, fireProgress := 0\<rparr>)) (drawn s))"
    by (rule sok_trans[OF 0]) (use i x y in \<open>intro sok_mod\<close>, simp_all)
  show ?thesis
    unfolding igniteFromNeighborsStep_def Let_def using 0 1 sok_refl[OF inv] by simp
qed

lemma sok_selfIgniteStep:
  assumes inv: "storeInv n s" and x: "0 \<le> x" and y: "0 \<le> y"
  shows "sok n s (selfIgniteStep rnd disasters x y s)"
proof -
  have i: "storeInv n (drawn s)" using inv by simp
  have 0: "sok n s (drawn s)" using inv by (simp add: sok_refl)
  have 1: "sok n s (mutateNew (\<lambda>g. modBuilding g x y (\<lambda>b. b\<lparr>onFire := True, fireProgress := 0\<rparr>)) (drawn s))"
    by (rule sok_trans[OF 0]) (use i x y in \<open>intro sok_mod\<close>, simp_all)
  show ?thesis
    unfolding selfIgniteStep_def Let_def using 0 1 sok_refl[OF inv] by simp
qed

section \<open>Construction progress: the tick\<close>

lemma sok_tileStep:
  assumes inv: "storeInv n s" and x: "0 \<le> x" "x < n" and y: "0 \<le> y" "y < n"
    and rnd: "\<forall>i. 0 \<le> rnd i"
  shows "sok n s (tileStep T rnd dem disasters sv n y x s)"
proof (cases "skipsTile T (getTile (viewInput s) x y) (get2 (powerCov sv) x y) (get2 (waterCov sv) x y)")
  case True
  then show ?thesis using inv by (simp add: tileStep_def sok_refl)
next
  case False
  let ?pw = "get2 (powerCov sv) x y"
  let ?wt = "get2 (waterCov sv) x y"
  define s0 where "s0 = copyRow y s"
  define s1 where "s1 = mutateNew (\<lambda>g. modBuilding g x y (\<lambda>b. b\<lparr>powered := ?pw, watered := ?wt\<rparr>)) s0"
  define s2 where "s2 = constructStep rnd x y s1"
  define s3 where "s3 = orphanStep n x y ?pw ?wt s2"
  define s4 where "s4 = developStep T rnd dem sv n x y ?pw ?wt s3"
  define s5 where "s5 = emitStep T x y s4"
  define s6 where "s6 = scrubStep x y s5"
  define s7 where "s7 = spreadStep rnd n x y s6"
  define s8 where "s8 = decayStep x y s7"
  define s9 where "s9 = burnStep rnd disasters sv x y s8"
  define s10 where "s10 = igniteFromNeighborsStep rnd disasters sv n x y s9"
  define s11 where "s11 = selfIgniteStep rnd disasters x y s10"
  have c0: "sok n s s0" unfolding s0_def using inv y by (rule sok_copyRow)
  have c1: "sok n s s1"
    unfolding s1_def using sok_trans[OF c0 sok_first[OF sok_inv[OF c0] x(1) y(1)]] .
  have c2: "sok n s s2"
    unfolding s2_def using sok_trans[OF c1 sok_constructStep[OF sok_inv[OF c1] x(1) y(1) rnd]] .
  have c3: "sok n s s3"
    unfolding s3_def using sok_trans[OF c2 sok_orphanStep[OF sok_inv[OF c2] x(1) y(1)]] .
  have c4: "sok n s s4"
    unfolding s4_def using sok_trans[OF c3 sok_developStep[OF sok_inv[OF c3] x y rnd]] .
  have c5: "sok n s s5"
    unfolding s5_def using sok_trans[OF c4 sok_emitStep[OF sok_inv[OF c4] x(1) y(1)]] .
  have c6: "sok n s s6"
    unfolding s6_def using sok_trans[OF c5 sok_scrubStep[OF sok_inv[OF c5] x(1) y(1)]] .
  have c7: "sok n s s7"
    unfolding s7_def using sok_trans[OF c6 sok_spreadStep[OF sok_inv[OF c6] x(1) y(1)]] .
  have c8: "sok n s s8"
    unfolding s8_def using sok_trans[OF c7 sok_decayStep[OF sok_inv[OF c7] x(1) y(1)]] .
  have c9: "sok n s s9"
    unfolding s9_def using sok_trans[OF c8 sok_burnStep[OF sok_inv[OF c8] x(1) y(1)]] .
  have c10: "sok n s s10"
    unfolding s10_def using sok_trans[OF c9 sok_igniteFromNeighborsStep[OF sok_inv[OF c9] x(1) y(1)]] .
  have c11: "sok n s s11"
    unfolding s11_def using sok_trans[OF c10 sok_selfIgniteStep[OF sok_inv[OF c10] x(1) y(1)]] .
  have "tileStep T rnd dem disasters sv n y x s = s11"
    unfolding tileStep_def Let_def s11_def s10_def s9_def s8_def s7_def s6_def s5_def s4_def s3_def
      s2_def s1_def s0_def
    using False by simp
  then show ?thesis using c11 by simp
qed

lemma sok_pass:
  assumes inv: "storeInv n s" and rnd: "\<forall>i. 0 \<le> rnd i"
  shows "sok n s (forBox 0 (n - 1) 0 (n - 1) (tileStep T rnd dem disasters sv n) s)"
  unfolding forBox_def
proof (rule sok_fold[OF _ inv])
  fix ny s' assume ny: "ny \<in> set [0..n - 1]" and inv': "storeInv n s'"
  show "sok n s' (fold (tileStep T rnd dem disasters sv n ny) [0..n - 1] s')"
  proof (rule sok_fold[OF _ inv'])
    fix nx s'' assume nx: "nx \<in> set [0..n - 1]" and inv'': "storeInv n s''"
    show "sok n s'' (tileStep T rnd dem disasters sv n ny nx s'')"
      using inv'' nx ny rnd by (intro sok_tileStep) auto
  qed
qed

lemma gkeeps_simulateTick:
  assumes wf: "wf_grid (grid state) (gridSize state)" and rnd: "\<forall>i. 0 \<le> rnd i"
  shows "gkeeps (gridSize state) (set (footprintLog (simulateTick T rnd visited0 k state)))
           (grid state) (viewNew (simulateTick T rnd visited0 k state))"
proof -
  let ?s0 = "initStore (grid state) visited0 k"
  have "sok (gridSize state) ?s0 (simulateTick T rnd visited0 k state)"
    unfolding simulateTick_def Let_def
    using storeInv_init[OF wf] rnd by (rule sok_pass)
  then show ?thesis by (simp add: sok_def viewNew_init)
qed

lemma nextState_fields [simp]:
  "gridSize (nextState T rnd v d state) = gridSize state"
  "grid (nextState T rnd v d state) = viewNew (simulateTick T rnd v 0 state)"
  by (simp_all add: nextState_def)

lemma runTicks_wf:
  assumes "wf_grid (grid state) (gridSize state)" "\<forall>(rnd, v, d)\<in>set envs. \<forall>i. 0 \<le> rnd i"
  shows "wf_grid (grid (runTicks T envs state)) (gridSize state)
       \<and> gridSize (runTicks T envs state) = gridSize state"
  using assms
proof (induction envs arbitrary: state)
  case Nil
  then show ?case by simp
next
  case (Cons e envs)
  obtain rnd v d where e: "e = (rnd, v, d)" by (cases e)
  have rnd: "\<forall>i. 0 \<le> rnd i" using Cons.prems(2) by (simp add: e)
  have "wf_grid (grid (nextState T rnd v d state)) (gridSize (nextState T rnd v d state))"
    using gkeeps_wf[OF gkeeps_simulateTick[OF Cons.prems(1) rnd]] by simp
  from Cons.IH[OF this] Cons.prems(2) show ?case by (simp add: e)
qed

text \<open>
  C6, amended. On a square grid, after any sequence of ticks (each with its own random
  draws, none of them negative, its own contents of the visited buffer and its own
  recomputed demand), one more tick treats every tile (x, y) as follows: if its building
  has a \<open>constructionProgress\<close> \<open>p\<close> of at most 100 before the tick, then after the tick
  it has a \<open>constructionProgress\<close> \<open>p'\<close> of at most 100, and \<open>p \<le> p'\<close> unless the tick
  called \<open>applyBuildingFootprint\<close> with (x, y) as origin, that is, unless the building of
  the tile was replaced by a new one (a spawn on a vacant zoned tile, or the consolidation
  of a finished building into its target type); a new building starts at 0. Whether the
  tile is powered and watered plays no role.
\<close>

theorem C6_progress_kept:
  assumes wf: "wf_grid (grid state) (gridSize state)"
    and envs: "\<forall>(rnd, v, d)\<in>set envs. \<forall>i. 0 \<le> rnd i"
    and rnd: "\<forall>i. 0 \<le> rnd i"
    and x: "0 \<le> x" "x < gridSize state" and y: "0 \<le> y" "y < gridSize state"
    and p: "constructionProgress (building (getTile (grid (runTicks T envs state)) x y)) = Some p"
      "p \<le> 100"
  shows "\<exists>p'. constructionProgress (building
                (getTile (grid (nextState T rnd v d (runTicks T envs state))) x y)) = Some p'
            \<and> p' \<le> 100
            \<and> ((x, y) \<notin> set (footprintLog (simulateTick T rnd v 0 (runTicks T envs state)))
                 \<longrightarrow> p \<le> p')"
proof -
  let ?before = "runTicks T envs state"
  have b: "wf_grid (grid ?before) (gridSize ?before)" "gridSize ?before = gridSize state"
    using runTicks_wf[OF wf envs] by simp_all
  have "gkeeps (gridSize ?before) (set (footprintLog (simulateTick T rnd v 0 ?before)))
          (grid ?before) (viewNew (simulateTick T rnd v 0 ?before))"
    using b(1) rnd by (rule gkeeps_simulateTick)
  then have "keeps ((x, y) \<in> set (footprintLog (simulateTick T rnd v 0 ?before)))
          (getTile (grid ?before) x y) (getTile (viewNew (simulateTick T rnd v 0 ?before)) x y)"
    using x y b(2) by (simp add: gkeeps_def)
  then show ?thesis using p unfolding keeps_def by auto
qed

lemma towerState_facts:
  "wf_grid (grid towerState) (gridSize towerState)"
  "gridSize towerState = 2"
  "constructionProgress (building (getTile (grid towerState) 0 0)) = Some 0"
  by code_simp+

lemma towerState_one_tick:
  "constructionProgress (building (getTile (grid
      (runTicks exampleTables [(\<lambda>_. 0, \<lambda>_. False, None)] towerState)) 0 0)) = Some (240 / 13)"
  "footprintLog (simulateTick exampleTables (\<lambda>_. 0) (\<lambda>_. False) 0
      (runTicks exampleTables [(\<lambda>_. 0, \<lambda>_. False, None)] towerState)) = []"
  by code_simp+

text \<open>
  Two ticks after \<^const>\<open>upgradeState\<close> the medium house on the residential tile (2,1) is
  under construction, and the third tick calls \<open>applyBuildingFootprint\<close> nowhere.
\<close>

lemma upgradeState_facts:
  "wf_grid (grid upgradeState) (gridSize upgradeState)"
  "gridSize upgradeState = 3"
  by code_simp+

lemma upgradeState_two_ticks:
  "constructionProgress (building (getTile (grid
      (runTicks exampleTables [(\<lambda>_. 0, \<lambda>_. False, None), (\<lambda>_. 0, \<lambda>_. False, None)] upgradeState)) 2 1))
     = Some (240 / 13)"
  "zone (getTile (grid
      (runTicks exampleTables [(\<lambda>_. 0, \<lambda>_. False, None), (\<lambda>_. 0, \<lambda>_. False, None)] upgradeState)) 2 1)
     = residential"
  "footprintLog (simulateTick exampleTables (\<lambda>_. 0) (\<lambda>_. False) 0
      (runTicks exampleTables [(\<lambda>_. 0, \<lambda>_. False, None), (\<lambda>_. 0, \<lambda>_. False, None)] upgradeState)) = []"
  by code_simp+

theorem C6_witness:
  "(\<exists>p'. constructionProgress (building (getTile (grid (nextState exampleTables (\<lambda>_. 0) (\<lambda>_. False) None
      (runTicks exampleTables [(\<lambda>_. 0, \<lambda>_. False, None), (\<lambda>_. 0, \<lambda>_. False, None)] upgradeState))) 2 1)) = Some p'
     \<and> p' \<le> 100 \<and> 240 / 13 \<le> p')
   \<and> (\<exists>p'. constructionProgress (building (getTile (grid (nextState exampleTables (\<lambda>_. 0) (\<lambda>_. False) None
      (runTicks exampleTables [(\<lambda>_. 0, \<lambda>_. False, None)] towerState))) 0 0)) = Some p'
     \<and> p' \<le> 100 \<and> 240 / 13 \<le> p')"
  using C6_progress_kept[where state = upgradeState
      and envs = "[(\<lambda>_. 0, \<lambda>_. False, None), (\<lambda>_. 0, \<lambda>_. False, None)]"
      and rnd = "\<lambda>_. 0" and x = 2 and y = 1 and T = exampleTables and p = "240 / 13"
      and v = "\<lambda>_. False" and d = None]
    C6_progress_kept[where state = towerState and envs = "[(\<lambda>_. 0, \<lambda>_. False, None)]"
      and rnd = "\<lambda>_. 0" and x = 0 and y = 0 and T = exampleTables and p = "240 / 13"
      and v = "\<lambda>_. False" and d = None]
    upgradeState_facts upgradeState_two_ticks towerState_facts towerState_one_tick
  by simp

text \<open>
  C6 as stated fails on the code. In \<^const>\<open>upgradeState\<close> the tile (2,1) holds a finished
  small house (progress 100) that is powered and watered. With a first draw below the
  consolidation chance 0.08 the tick rebuilds it as a medium house through
  \<open>applyBuildingFootprint\<close>, called with (2,1) as origin, whose \<open>createBuilding\<close> starts
  at progress 0: after the tick the tile is still powered and watered, and its progress
  has dropped from 100 to 0.
\<close>

theorem C6_counterexample:
  "btype (building (getTile (grid upgradeState) 2 1)) = ''house_small'' \<and>
   constructionProgress (building (getTile (grid upgradeState) 2 1)) = Some 100 \<and>
   powered (building (getTile (grid upgradeState) 2 1)) \<and>
   watered (building (getTile (grid upgradeState) 2 1)) \<and>
   btype (building (getTile (grid (nextState exampleTables (\<lambda>_. 0) (\<lambda>_. False) None upgradeState)) 2 1))
     = ''house_medium'' \<and>
   constructionProgress (building (getTile (grid (nextState exampleTables (\<lambda>_. 0) (\<lambda>_. False) None upgradeState)) 2 1))
     = Some 0 \<and>
   powered (building (getTile (grid (nextState exampleTables (\<lambda>_. 0) (\<lambda>_. False) None upgradeState)) 2 1)) \<and>
   watered (building (getTile (grid (nextState exampleTables (\<lambda>_. 0) (\<lambda>_. False) None upgradeState)) 2 1)) \<and>
   footprintLog (simulateTick exampleTables (\<lambda>_. 0) (\<lambda>_. False) 0 upgradeState) = [(2, 1)]"
  by code_simp

section \<open>Road access on a map larger than the visited buffer\<close>

lemma hasRoadAccess_unzoned:
  "zone (getTile g x y) = zone_none \<Longrightarrow> fst (hasRoadAccess g x y sz maxDistance visited0) = False"
  by (simp add: hasRoadAccess_def)

lemma getTile_bandMap:
  assumes "0 \<le> x" "x < n" "0 \<le> y" "y < n"
  shows "getTile (bandMap n rx) x y =
           (if y < n - 3 then createTile x y ''grass''
            else if y = n - 1 \<and> x = rx then createTile x y ''road''
            else (createTile x y ''grass'')\<lparr>zone := residential\<rparr>)"
proof -
  have "nat y < length [0..n - 1]" "nat x < length [0..n - 1]" using assms by simp_all
  moreover have "[0..n - 1] ! nat y = y" "[0..n - 1] ! nat x = x" using assms by (simp_all add: nth_upto)
  ultimately show ?thesis
    unfolding getTile_def bandMap_def by (simp only: nth_map)
qed

lemma band_zone:
  "0 \<le> x \<Longrightarrow> x < n \<Longrightarrow> 0 \<le> y \<Longrightarrow> y < n \<Longrightarrow>
   zone (getTile (bandMap n rx) x y) = (if y < n - 3 \<or> (y = n - 1 \<and> x = rx) then zone_none else residential)"
  by (simp add: getTile_bandMap createTile_def)

lemma band_btype:
  "0 \<le> x \<Longrightarrow> x < n \<Longrightarrow> 0 \<le> y \<Longrightarrow> y < n \<Longrightarrow>
   btype (building (getTile (bandMap n rx) x y)) = (if y = n - 1 \<and> x = rx then ''road'' else ''grass'')"
  by (simp add: getTile_bandMap createTile_def createBuilding_def)

lemma wf_bandMap: "0 \<le> n \<Longrightarrow> wf_grid (bandMap n rx) n"
  by (simp add: wf_grid_def bandMap_def list_all_iff)

lemma band_path:
  "roadPath (bandMap 130 16) 130
     [(10, 129), (11, 129), (12, 129), (13, 129), (14, 129), (15, 129), (16, 129)]"
  "roadPath (bandMap 128 16) 128
     [(10, 127), (11, 127), (12, 127), (13, 127), (14, 127), (15, 127), (16, 127)]"
  by (simp_all add: roadPath_def inBounds_def band_zone band_btype)

lemma band_large: "fst (hasRoadAccess (bandMap 130 16) 10 129 130 DEFAULT_MAX_DISTANCE v0) = False"
  by (simp add: hasRoadAccess_def Let_def forBox_def band_zone band_btype roadAccessLoop.simps
      visitedGet_def visitedSet_def VISITED_LENGTH_def QUEUE_LENGTH_def toInt16_def DEFAULT_MAX_DISTANCE_def)

lemma band_small: "fst (hasRoadAccess (bandMap 128 16) 10 127 128 DEFAULT_MAX_DISTANCE v0) = True"
  by (simp add: hasRoadAccess_def Let_def forBox_def band_zone band_btype roadAccessLoop.simps
      visitedGet_def visitedSet_def VISITED_LENGTH_def QUEUE_LENGTH_def toInt16_def DEFAULT_MAX_DISTANCE_def)

text \<open>
  C5 fails on the code for maps larger than 128. On the 130x130 map \<^const>\<open>bandMap\<close> (the
  size of a default 70x70 map after two expansions by 15) the tile (10,129) is zoned
  residential and the road at (16,129) is six steps away along the zoned bottom row, within
  the default distance of 8, yet \<open>hasRoadAccess\<close> returns false, whatever the visited
  buffer holds on entry. The indices \<open>ny * size + nx\<close> of the last rows lie beyond the
  128 * 128 cells of \<open>roadAccessVisited\<close>, so no tile there is ever marked as visited, tiles
  are queued again and again, and the queue of 255 entries is full before the search is
  six steps from the start. On the same layout at size 128 the road is found.
\<close>

theorem C5_road_access_beyond_buffer:
  "wf_grid (bandMap 130 16) 130
   \<and> inBounds 130 10 129
   \<and> zone (getTile (bandMap 130 16) 10 129) = residential
   \<and> roadPath (bandMap 130 16) 130
        [(10, 129), (11, 129), (12, 129), (13, 129), (14, 129), (15, 129), (16, 129)]
   \<and> int (length [(10, 129), (11, 129), (12, 129), (13, 129), (14, 129), (15, 129), (16::int, 129::int)]) - 1
        \<le> DEFAULT_MAX_DISTANCE
   \<and> fst (hasRoadAccess (bandMap 130 16) 10 129 130 DEFAULT_MAX_DISTANCE v0) = False
   \<and> roadPath (bandMap 128 16) 128
        [(10, 127), (11, 127), (12, 127), (13, 127), (14, 127), (15, 127), (16, 127)]
   \<and> fst (hasRoadAccess (bandMap 128 16) 10 127 128 DEFAULT_MAX_DISTANCE v0) = True"
  using band_path band_large[of v0] band_small[of v0]
  by (simp add: wf_bandMap inBounds_def band_zone DEFAULT_MAX_DISTANCE_def)

end
